theory Spec2Isabelle
  imports Main "HOL-Library.Word"
begin

section \<open>RDMA device layer (src/msg/async/rdma/Device.cc)\<close>

text \<open>
  A shallow embedding of \<^verbatim>\<open>Port\<close>, \<^verbatim>\<open>Device\<close> and \<^verbatim>\<open>DeviceList\<close>.
  Every method becomes a function from the object's state to a result of type
  \<open>fault + \<dots>\<close>: \<open>Inl\<close> is a fatal end of the process (\<^verbatim>\<open>ceph_abort()\<close>, a failed
  \<^verbatim>\<open>assert\<close>, or the use of a null or deleted pointer), \<open>Inr\<close> carries the return
  value together with the state the method leaves behind.

  The verbs library, the operating system and the collaborator classes of
  \<^verbatim>\<open>Infiniband.h\<close> (completion channel, completion queue, memory manager) are outside
  this file.  Their answers are parameters of the model, collected in the record \<open>hw\<close>;
  what the code asked of them is kept as a history inside the object it asked.
\<close>

subsection \<open>Fatal outcomes and owning pointers\<close>

datatype fault =
    CephAbort       \<comment> \<open>\<^verbatim>\<open>ceph_abort()\<close>\<close>
  | AssertFailed    \<comment> \<open>\<^verbatim>\<open>assert(e)\<close> with \<open>e\<close> false\<close>
  | NullDeref       \<comment> \<open>\<^verbatim>\<open>p->m\<close> with \<open>p\<close> null\<close>
  | UseAfterFree    \<comment> \<open>\<^verbatim>\<open>p->m\<close> after \<^verbatim>\<open>delete p\<close>\<close>
  | DoubleFree      \<comment> \<open>\<^verbatim>\<open>delete p\<close> after \<^verbatim>\<open>delete p\<close>\<close>
  | OutOfBounds     \<comment> \<open>\<^verbatim>\<open>a[i]\<close> with \<open>i\<close> outside the array\<close>

text \<open>
  A pointer field that owns its target.  \<^verbatim>\<open>delete p\<close> does not change the value of
  \<open>p\<close>: the field keeps pointing at storage that is gone, which is \<open>Dangling\<close>.
\<close>

datatype 'a ptr = Null | Live 'a | Dangling

fun deref :: "'a ptr \<Rightarrow> fault + 'a" where
  "deref Null = Inl NullDeref"
| "deref (Live x) = Inr x"
| "deref Dangling = Inl UseAfterFree"

fun delete :: "'a ptr \<Rightarrow> fault + 'a ptr" where
  "delete Null = Inr Null"
| "delete (Live x) = Inr Dangling"
| "delete Dangling = Inl DoubleFree"

fun is_live :: "'a ptr \<Rightarrow> bool" where
  "is_live (Live x) = True"
| "is_live p = False"

fun released :: "'a ptr \<Rightarrow> bool" where
  "released (Live x) = False"
| "released p = True"

text \<open>The pointer value alone, as a constructor argument copies it.\<close>

fun ptr_value :: "'a ptr \<Rightarrow> unit ptr" where
  "ptr_value Null = Null"
| "ptr_value (Live x) = Live ()"
| "ptr_value Dangling = Dangling"

subsection \<open>Verbs structures and collaborators\<close>

text \<open>
  A C \<^verbatim>\<open>int\<close> is 32 bits wide; \<open>sint\<close> reads it.  The same 32 bits read by \<open>unat\<close> are
  the \<^verbatim>\<open>uint32_t\<close> a conversion yields.
\<close>

type_synonym c_int = "32 word"

text \<open>The fields of \<^verbatim>\<open>ibv_device_attr\<close> that the code reads (all \<^verbatim>\<open>int\<close>).\<close>

record ibv_device_attr =
  max_srq_wr :: c_int
  max_qp_wr :: c_int
  max_cqe :: c_int

record ibv_mr =
  lkey :: "32 word"

text \<open>
  \<^verbatim>\<open>Chunk\<close>: \<open>chunk_ptr\<close> is the address of the chunk object itself, \<open>buffer\<close> the
  address of its registered memory.
\<close>

record chunk =
  chunk_ptr :: "64 word"
  buffer :: "64 word"
  bytes :: "32 word"
  mr :: ibv_mr

record ibv_sge =
  sge_addr :: "64 word"
  sge_length :: "32 word"
  sge_lkey :: "32 word"

record ibv_recv_wr =
  wr_id :: "64 word"
  wr_next :: "unit ptr"
  sg_list :: "ibv_sge list"
  num_sge :: int

text \<open>
  A shared receive queue: its creation attributes and every work request handed to
  \<^verbatim>\<open>ibv_post_srq_recv\<close> on it, with the value that call returned.
\<close>

record ibv_srq =
  srq_max_wr :: "32 word"
  srq_max_sge :: "32 word"
  srq_posts :: "(ibv_recv_wr \<times> int) list"

text \<open>
  \<^verbatim>\<open>Infiniband::CompletionChannel\<close>: its descriptor, the answers of its
  \<^verbatim>\<open>get_cq_event()\<close> calls so far and the number of \<^verbatim>\<open>ack_events()\<close> calls.
\<close>

record completion_channel =
  cc_fd :: int
  cc_events :: "bool list"
  cc_acks :: nat

text \<open>
  \<^verbatim>\<open>Infiniband::CompletionQueue\<close>: the device and the channel pointer its
  constructor was given, its depth, and the history of \<^verbatim>\<open>poll_cq(n, wc)\<close> calls (argument and result) and of
  \<^verbatim>\<open>rearm_notify()\<close> results.
\<close>

record completion_queue =
  cq_device :: string
  cq_depth :: "32 word"
  cq_channel :: "unit ptr"
  cq_polls :: "(int \<times> int) list"
  cq_rearms :: "int list"

record protection_domain =
  pd_device :: string

record memory_manager =
  mm_hugepage :: bool
  mm_buffer_size :: int
  mm_rx :: "32 word"
  mm_tx :: "32 word"

text \<open>
  \<^verbatim>\<open>cct->_conf\<close>.  The options are declared outside this file; the record holds the
  number each of them is configured to, whatever its declared type (the code reads the
  two buffer counts through a cast to \<^verbatim>\<open>int\<close>, see \<open>int_cast\<close>).  \<open>sscanf_gid\<close> is what
  \<^verbatim>\<open>sscanf\<close> makes of \<^verbatim>\<open>ms_async_rdma_local_gid\<close> under the format of sixteen
  \<^verbatim>\<open>%02hhx\<close> groups: its return value and the bytes of \<^verbatim>\<open>cgid.raw\<close>.
\<close>

record config =
  ms_async_rdma_receive_buffers :: int
  ms_async_rdma_send_buffers :: int
  ms_async_rdma_buffer_size :: int
  ms_async_rdma_enable_hugepage :: bool
  ms_async_rdma_roce_ver :: int
  sscanf_gid :: "int \<times> 8 word list"

text \<open>
  The answers of everything outside the file.  An answer may depend on the state and
  history of the object asked, so two calls need not agree.
  \<^item> \<open>ibv_query_device\<close>: return value and the attributes written;
  \<^item> \<open>set_nonblock\<close>: return value of \<^verbatim>\<open>NetHandler::set_nonblock\<close>;
  \<^item> \<open>ibv_create_srq\<close>: whether a queue is created (else \<^verbatim>\<open>NULL\<close>);
  \<^item> \<open>get_channel_buffers\<close>: return value and the chunks appended to the vector;
  \<^item> \<open>ibv_post_srq_recv\<close>: return value, and \<^verbatim>\<open>errno\<close> after the call;
  \<^item> \<open>cc_init\<close>, \<open>cq_init\<close>: \<^verbatim>\<open>CompletionChannel::init()\<close>, \<^verbatim>\<open>CompletionQueue::init()\<close>;
  \<^item> \<open>poll_cq\<close>, \<open>rearm_notify\<close>: the methods of \<^verbatim>\<open>CompletionQueue\<close>;
  \<^item> \<open>get_cq_event\<close>: the method of \<^verbatim>\<open>CompletionChannel\<close>.
\<close>

record hw =
  ibv_query_device :: "int \<times> ibv_device_attr"
  set_nonblock :: int
  ibv_create_srq :: bool
  get_channel_buffers :: "memory_manager \<Rightarrow> nat \<Rightarrow> int \<times> chunk list"
  ibv_post_srq_recv :: "ibv_srq \<Rightarrow> ibv_recv_wr \<Rightarrow> int \<times> int"
  cc_init :: "completion_channel \<Rightarrow> int"
  cq_init :: "completion_queue \<Rightarrow> int"
  poll_cq :: "completion_queue \<Rightarrow> int \<Rightarrow> int"
  rearm_notify :: "completion_queue \<Rightarrow> int"
  get_cq_event :: "completion_channel \<Rightarrow> bool"

subsection \<open>Device\<close>

text \<open>
  The fields of \<^verbatim>\<open>Device\<close> that its methods read or write.  \<open>lock\<close> is taken and
  dropped inside \<^verbatim>\<open>init()\<close> and is the same before and after every call, so it has
  no field.
\<close>

record device =
  dev_name :: string
  device_attr :: ibv_device_attr
  initialized :: bool
  pd :: "protection_domain ptr"
  memory_manager :: "memory_manager ptr"
  srq :: "ibv_srq ptr"
  tx_cc :: "completion_channel ptr"
  rx_cc :: "completion_channel ptr"
  tx_cq :: "completion_queue ptr"
  rx_cq :: "completion_queue ptr"
  max_recv_wr :: "32 word"
  max_send_wr :: "32 word"

definition MAX_SHARED_RX_SGE_COUNT :: "32 word" where
  "MAX_SHARED_RX_SGE_COUNT = 1"

definition CQ_DEPTH :: "32 word" where
  "CQ_DEPTH = 30000"

text \<open>
  \<^verbatim>\<open>create_comp_channel\<close>: a new channel on descriptor \<open>fd\<close>; \<^verbatim>\<open>NULL\<close> when its
  \<^verbatim>\<open>init()\<close> returns nonzero.
\<close>

definition create_comp_channel :: "hw \<Rightarrow> int \<Rightarrow> completion_channel ptr" where
  "create_comp_channel h fd =
     (let cc = \<lparr>cc_fd = fd, cc_events = [], cc_acks = 0\<rparr>
      in if cc_init h cc \<noteq> 0 then Null else Live cc)"

text \<open>
  \<^verbatim>\<open>create_comp_queue\<close>: the channel pointer is handed to the constructor as it is;
  nothing in this file looks at what it points to.
\<close>

definition create_comp_queue ::
    "hw \<Rightarrow> device \<Rightarrow> completion_channel ptr \<Rightarrow> completion_queue ptr" where
  "create_comp_queue h d cc =
     (let cq = \<lparr>cq_device = dev_name d, cq_depth = CQ_DEPTH, cq_channel = ptr_value cc,
                cq_polls = [], cq_rearms = []\<rparr>
      in if cq_init h cq \<noteq> 0 then Null else Live cq)"

text \<open>\<^verbatim>\<open>create_shared_receive_queue\<close> reads \<^verbatim>\<open>pd->pd\<close>.\<close>

definition create_shared_receive_queue ::
    "hw \<Rightarrow> device \<Rightarrow> 32 word \<Rightarrow> 32 word \<Rightarrow> fault + ibv_srq ptr" where
  "create_shared_receive_queue h d max_wr max_sge =
     (case deref (pd d) of
        Inl f \<Rightarrow> Inl f
      | Inr p \<Rightarrow>
          Inr (if ibv_create_srq h
               then Live \<lparr>srq_max_wr = max_wr, srq_max_sge = max_sge, srq_posts = []\<rparr>
               else Null))"

text \<open>
  \<^verbatim>\<open>post_chunk\<close>.  \<^verbatim>\<open>ibv_post_srq_recv\<close> is an inline function of the verbs header that
  reads through the queue pointer, so a null or deleted \<open>srq\<close> ends the process.
  The result is \<open>- errno\<close> when the call returns nonzero, and 0 otherwise.
\<close>

definition recv_wr_of :: "chunk \<Rightarrow> ibv_recv_wr" where
  "recv_wr_of c =
     (let isge = \<lparr>sge_addr = buffer c, sge_length = bytes c, sge_lkey = lkey (mr c)\<rparr>
      in \<lparr>wr_id = chunk_ptr c, wr_next = Null, sg_list = [isge], num_sge = 1\<rparr>)"

definition post_chunk :: "hw \<Rightarrow> device \<Rightarrow> chunk \<Rightarrow> fault + (int \<times> device)" where
  "post_chunk h d c =
     (let rx_work_request = recv_wr_of c
      in case deref (srq d) of
           Inl f \<Rightarrow> Inl f
         | Inr q \<Rightarrow>
             (case ibv_post_srq_recv h q rx_work_request of
                (ret, errno) \<Rightarrow>
                  let d' = d\<lparr>srq := Live (q\<lparr>srq_posts := srq_posts q @ [(rx_work_request, ret)]\<rparr>)\<rparr>
                  in if ret \<noteq> 0 then Inr (- errno, d') else Inr (0, d')))"

text \<open>The \<^verbatim>\<open>for\<close> loop of \<^verbatim>\<open>post_channel_cluster\<close> over the vector of chunks.\<close>

fun post_chunks :: "hw \<Rightarrow> device \<Rightarrow> chunk list \<Rightarrow> fault + device" where
  "post_chunks h d [] = Inr d"
| "post_chunks h d (c # cs) =
     (case post_chunk h d c of
        Inl f \<Rightarrow> Inl f
      | Inr (r, d') \<Rightarrow> if r = 0 then post_chunks h d' cs else Inl AssertFailed)"

definition post_channel_cluster :: "hw \<Rightarrow> device \<Rightarrow> fault + (int \<times> device)" where
  "post_channel_cluster h d =
     (case deref (memory_manager d) of
        Inl f \<Rightarrow> Inl f
      | Inr m \<Rightarrow>
          (case get_channel_buffers h m 0 of
             (r, free_chunks) \<Rightarrow>
               if r > 0
               then (case post_chunks h d free_chunks of
                       Inl f \<Rightarrow> Inl f
                     | Inr d' \<Rightarrow> Inr (0, d'))
               else Inl AssertFailed))"

text \<open>
  \<^verbatim>\<open>Device::init\<close>, statement by statement.  \<open>c\<close> is \<^verbatim>\<open>cct->_conf\<close>.
\<close>

text \<open>
  \<^verbatim>\<open>(int)e\<close> for a number \<open>e\<close> of any integer type: the value itself when an \<^verbatim>\<open>int\<close> can
  hold it, else the value reduced modulo \<open>2 ^ 32\<close>.  \<^verbatim>\<open>std::min(a, b)\<close> on two \<^verbatim>\<open>int\<close>s
  is \<^verbatim>\<open>b < a ? b : a\<close>.  The limits are members of \<^verbatim>\<open>Device\<close> declared outside this file;
  they hold the 32 bits of the minimum, which is what \<^verbatim>\<open>create_shared_receive_queue\<close> and
  \<^verbatim>\<open>register_rx_tx\<close> are handed.
\<close>

definition int_cast :: "int \<Rightarrow> c_int" where
  "int_cast e = word_of_int e"

definition std_min :: "c_int \<Rightarrow> c_int \<Rightarrow> c_int" where
  "std_min a b = (if sint b < sint a then b else a)"

definition init_limits :: "config \<Rightarrow> device \<Rightarrow> device" where
  "init_limits c d =
     (let d1 = d\<lparr>max_recv_wr := std_min (max_srq_wr (device_attr d))
                                       (int_cast (ms_async_rdma_receive_buffers c))\<rparr>
      in d1\<lparr>max_send_wr := std_min (max_qp_wr (device_attr d1))
                                     (int_cast (ms_async_rdma_send_buffers c))\<rparr>)"

definition init_memory :: "config \<Rightarrow> device \<Rightarrow> device" where
  "init_memory c d =
     d\<lparr>memory_manager :=
          Live \<lparr>mm_hugepage = ms_async_rdma_enable_hugepage c,
                mm_buffer_size = ms_async_rdma_buffer_size c,
                mm_rx = max_recv_wr d, mm_tx = max_send_wr d\<rparr>\<rparr>"

definition init_queues :: "hw \<Rightarrow> device \<Rightarrow> fault + device" where
  "init_queues h d =
     (let d1 = d\<lparr>tx_cq := create_comp_queue h d (tx_cc d)\<rparr>
      in if tx_cq d1 = Null then Inl AssertFailed
         else let d2 = d1\<lparr>rx_cq := create_comp_queue h d1 (rx_cc d1)\<rparr>
              in if rx_cq d2 = Null then Inl AssertFailed
                 else Inr (d2\<lparr>initialized := True\<rparr>))"

definition init :: "hw \<Rightarrow> config \<Rightarrow> device \<Rightarrow> fault + device" where
  "init h c d =
     (if initialized d then Inr d
      else case ibv_query_device h of
        (r, attr) \<Rightarrow>
          if r = - 1 then Inl CephAbort
          else
            let d1 = d\<lparr>device_attr := attr\<rparr>;
                d2 = d1\<lparr>pd := Live \<lparr>pd_device = dev_name d1\<rparr>\<rparr>
            in if set_nonblock h \<noteq> 0 then Inl AssertFailed
               else
                 let d3 = init_memory c (init_limits c d2)
                 in case create_shared_receive_queue h d3
                           (max_recv_wr d3) MAX_SHARED_RX_SGE_COUNT of
                      Inl f \<Rightarrow> Inl f
                    | Inr q \<Rightarrow>
                        (case post_channel_cluster h (d3\<lparr>srq := q\<rparr>) of
                           Inl f \<Rightarrow> Inl f
                         | Inr (r', d4) \<Rightarrow> init_queues h d4))"

text \<open>
  \<^verbatim>\<open>Device::uninit\<close>: \<^verbatim>\<open>ack_events()\<close> on both channels, the flag, then the seven
  \<^verbatim>\<open>delete\<close>s in the order of the source.
\<close>

definition ack_events :: "completion_channel \<Rightarrow> completion_channel" where
  "ack_events cc = cc\<lparr>cc_acks := Suc (cc_acks cc)\<rparr>"

definition uninit_ack :: "device \<Rightarrow> fault + device" where
  "uninit_ack d =
     (case deref (tx_cc d) of
        Inl f \<Rightarrow> Inl f
      | Inr t \<Rightarrow>
          (case deref (rx_cc d) of
             Inl f \<Rightarrow> Inl f
           | Inr r \<Rightarrow> Inr (d\<lparr>tx_cc := Live (ack_events t), rx_cc := Live (ack_events r)\<rparr>)))"

definition uninit_delete :: "device \<Rightarrow> fault + device" where
  "uninit_delete d =
     (case delete (rx_cq d) of Inl f \<Rightarrow> Inl f | Inr p1 \<Rightarrow>
      case delete (tx_cq d) of Inl f \<Rightarrow> Inl f | Inr p2 \<Rightarrow>
      case delete (rx_cc d) of Inl f \<Rightarrow> Inl f | Inr p3 \<Rightarrow>
      case delete (tx_cc d) of Inl f \<Rightarrow> Inl f | Inr p4 \<Rightarrow>
      case delete (srq d) of Inl f \<Rightarrow> Inl f | Inr p5 \<Rightarrow>
      case delete (memory_manager d) of Inl f \<Rightarrow> Inl f | Inr p6 \<Rightarrow>
      case delete (pd d) of Inl f \<Rightarrow> Inl f | Inr p7 \<Rightarrow>
        Inr (d\<lparr>rx_cq := p1, tx_cq := p2, rx_cc := p3, tx_cc := p4,
                srq := p5, memory_manager := p6, pd := p7\<rparr>))"

definition uninit :: "device \<Rightarrow> fault + device" where
  "uninit d =
     (if \<not> initialized d then Inr d
      else case uninit_ack d of
             Inl f \<Rightarrow> Inl f
           | Inr d1 \<Rightarrow> uninit_delete (d1\<lparr>initialized := False\<rparr>))"

text \<open>
  \<^verbatim>\<open>Device::Device\<close>.  \<open>dev\<close> is the \<^verbatim>\<open>ibv_device*\<close> (\<open>None\<close> for \<^verbatim>\<open>NULL\<close>, else the
  name \<^verbatim>\<open>ibv_get_device_name\<close> gives), \<open>opened\<close> says whether \<^verbatim>\<open>ibv_open_device\<close>
  returned a context, \<open>tx_fd\<close> and \<open>rx_fd\<close> are the descriptors of the two channels.

  Modelled from the spec: the in-class initialisers of \<^verbatim>\<open>Device.h\<close> are not among the
  sources; the spec's data model has \<open>initialized\<close> false and the protection domain,
  memory manager, receive queue and completion queues absent until \<^verbatim>\<open>init()\<close>.
\<close>

definition Device_ctor :: "hw \<Rightarrow> string option \<Rightarrow> bool \<Rightarrow> int \<Rightarrow> int \<Rightarrow> fault + device" where
  "Device_ctor h dev opened tx_fd rx_fd =
     (case dev of
        None \<Rightarrow> Inl CephAbort
      | Some nm \<Rightarrow>
          if \<not> opened then Inl CephAbort
          else case ibv_query_device h of
            (r, attr) \<Rightarrow>
              if r = - 1 then Inl CephAbort
              else
                let t = create_comp_channel h tx_fd
                in if t = Null then Inl AssertFailed
                   else
                     let x = create_comp_channel h rx_fd
                     in if x = Null then Inl AssertFailed
                        else Inr \<lparr>dev_name = nm, device_attr = attr, initialized = False,
                                  pd = Null, memory_manager = Null, srq = Null,
                                  tx_cc = t, rx_cc = x, tx_cq = Null, rx_cq = Null,
                                  max_recv_wr = 0, max_send_wr = 0\<rparr>)"

text \<open>\<^verbatim>\<open>Device::poll_tx_cq\<close>, \<^verbatim>\<open>Device::poll_rx_cq\<close> and \<^verbatim>\<open>Device::rearm_cqs\<close>.\<close>

definition polled :: "hw \<Rightarrow> completion_queue \<Rightarrow> int \<Rightarrow> completion_queue" where
  "polled h q n = q\<lparr>cq_polls := cq_polls q @ [(n, poll_cq h q n)]\<rparr>"

definition poll_tx_cq :: "hw \<Rightarrow> device \<Rightarrow> int \<Rightarrow> fault + (int \<times> device)" where
  "poll_tx_cq h d n =
     (if \<not> initialized d then Inr (0, d)
      else case deref (tx_cq d) of
             Inl f \<Rightarrow> Inl f
           | Inr q \<Rightarrow> Inr (poll_cq h q n, d\<lparr>tx_cq := Live (polled h q n)\<rparr>))"

definition poll_rx_cq :: "hw \<Rightarrow> device \<Rightarrow> int \<Rightarrow> fault + (int \<times> device)" where
  "poll_rx_cq h d n =
     (if \<not> initialized d then Inr (0, d)
      else case deref (rx_cq d) of
             Inl f \<Rightarrow> Inl f
           | Inr q \<Rightarrow> Inr (poll_cq h q n, d\<lparr>rx_cq := Live (polled h q n)\<rparr>))"

definition rearmed :: "hw \<Rightarrow> completion_queue \<Rightarrow> completion_queue" where
  "rearmed h q = q\<lparr>cq_rearms := cq_rearms q @ [rearm_notify h q]\<rparr>"

definition rearm_cqs :: "hw \<Rightarrow> device \<Rightarrow> fault + device" where
  "rearm_cqs h d =
     (if \<not> initialized d then Inr d
      else case deref (tx_cq d) of
             Inl f \<Rightarrow> Inl f
           | Inr t \<Rightarrow>
               if rearm_notify h t \<noteq> 0 then Inl AssertFailed
               else
                 let d1 = d\<lparr>tx_cq := Live (rearmed h t)\<rparr>
                 in case deref (rx_cq d1) of
                      Inl f \<Rightarrow> Inl f
                    | Inr r \<Rightarrow>
                        if rearm_notify h r \<noteq> 0 then Inl AssertFailed
                        else Inr (d1\<lparr>rx_cq := Live (rearmed h r)\<rparr>))"

subsection \<open>DeviceList\<close>

text \<open>
  \<open>devices\<close> is the array of \<^verbatim>\<open>Device*\<close>, each element owning its device for the life
  of the list, and \<^verbatim>\<open>num\<close> its length.  \<open>last_poll_dev\<close> is the rotating cursor, an
  \<^verbatim>\<open>int\<close> like \<^verbatim>\<open>num\<close>, with which it is divided: \<^verbatim>\<open>++last_poll_dev\<close> adds one to its 32
  bits and wraps from 2147483647 to \<open>- 2147483648\<close> (the result of the two's-complement
  machines the code is built for; the language leaves this overflow undefined), and
  \<^verbatim>\<open>%\<close> is the remainder of C, which takes the sign of the dividend.  The constructor
  of this file does not assign the cursor, and its declaration is outside the file, so
  a list may hold any value of it.  \<open>cursor\<close> is the value of the cursor.
\<close>

record device_list =
  devices :: "device list"
  last_poll_dev :: c_int

definition cursor :: "device_list \<Rightarrow> int" where
  "cursor dl = sint (last_poll_dev dl)"

definition num :: "device_list \<Rightarrow> int" where
  "num dl = int (length (devices dl))"

definition c_rem :: "int \<Rightarrow> int \<Rightarrow> int" where
  "c_rem a b = (if 0 \<le> a then a mod \<bar>b\<bar> else - ((- a) mod \<bar>b\<bar>))"

text \<open>
  The loop shared by \<^verbatim>\<open>DeviceList::poll_tx\<close> and \<^verbatim>\<open>DeviceList::poll_rx\<close>, which differ
  only in the method called on the device (\<open>pcq\<close>).  The first argument counts the
  iterations that remain, \<open>n\<close> and \<open>d\<close> are the local \<^verbatim>\<open>n\<close> and the caller's \<^verbatim>\<open>*d\<close>
  (the index of a device, \<open>None\<close> while nothing was written).  Beside the return value,
  \<^verbatim>\<open>*d\<close> and the list, the result holds the trace of the loop: for each iteration the
  index assigned to \<^verbatim>\<open>*d\<close> and the value assigned to \<^verbatim>\<open>n\<close>.
\<close>

fun poll_devices ::
    "(device \<Rightarrow> fault + (int \<times> device)) \<Rightarrow> nat \<Rightarrow> device_list \<Rightarrow> int \<Rightarrow> nat option \<Rightarrow>
     fault + (int \<times> nat option \<times> (nat \<times> int) list \<times> device_list)" where
  "poll_devices pcq 0 dl n d = Inr (n, d, [], dl)"
| "poll_devices pcq (Suc k) dl n d =
     (let cur = last_poll_dev dl + 1;
          idx = c_rem (sint cur) (num dl);
          dl1 = dl\<lparr>last_poll_dev := cur\<rparr>
      in if idx < 0 \<or> num dl \<le> idx then Inl OutOfBounds
         else case pcq (devices dl1 ! nat idx) of
                Inl f \<Rightarrow> Inl f
              | Inr (n', dev') \<Rightarrow>
                  let dl2 = dl1\<lparr>devices := (devices dl1)[nat idx := dev']\<rparr>
                  in if n' \<noteq> 0 then Inr (n', Some (nat idx), [(nat idx, n')], dl2)
                     else case poll_devices pcq k dl2 n' (Some (nat idx)) of
                            Inl f \<Rightarrow> Inl f
                          | Inr (m, d', tr, dl3) \<Rightarrow> Inr (m, d', (nat idx, n') # tr, dl3))"

definition poll_tx ::
    "hw \<Rightarrow> int \<Rightarrow> device_list \<Rightarrow> nat option \<Rightarrow>
     fault + (int \<times> nat option \<times> (nat \<times> int) list \<times> device_list)" where
  "poll_tx h num_entries dl d =
     poll_devices (\<lambda>dev. poll_tx_cq h dev num_entries) (length (devices dl)) dl 0 d"

definition poll_rx ::
    "hw \<Rightarrow> int \<Rightarrow> device_list \<Rightarrow> nat option \<Rightarrow>
     fault + (int \<times> nat option \<times> (nat \<times> int) list \<times> device_list)" where
  "poll_rx h num_entries dl d =
     poll_devices (\<lambda>dev. poll_rx_cq h dev num_entries) (length (devices dl)) dl 0 d"

text \<open>A caller's sequence of polling calls on one list, in any interleaving.\<close>

datatype poll_call = PollTx int | PollRx int

fun poll_one ::
    "hw \<Rightarrow> poll_call \<Rightarrow> device_list \<Rightarrow> nat option \<Rightarrow>
     fault + (int \<times> nat option \<times> (nat \<times> int) list \<times> device_list)" where
  "poll_one h (PollTx n) dl d = poll_tx h n dl d"
| "poll_one h (PollRx n) dl d = poll_rx h n dl d"

text \<open>The return values of the calls, the traces of all calls in a row, the final list.\<close>

fun poll_calls ::
    "hw \<Rightarrow> poll_call list \<Rightarrow> device_list \<Rightarrow> nat option \<Rightarrow>
     fault + (int list \<times> (nat \<times> int) list \<times> device_list)" where
  "poll_calls h [] dl d = Inr ([], [], dl)"
| "poll_calls h (c # cs) dl d =
     (case poll_one h c dl d of
        Inl f \<Rightarrow> Inl f
      | Inr (n, d', tr, dl') \<Rightarrow>
          (case poll_calls h cs dl' d' of
             Inl f \<Rightarrow> Inl f
           | Inr (ns, tr', dl'') \<Rightarrow> Inr (n # ns, tr @ tr', dl'')))"

text \<open>
  \<^verbatim>\<open>DeviceList::poll_blocking\<close>.  The wait loop reads the caller's flag \<^verbatim>\<open>done\<close>, which
  another thread may set while \<^verbatim>\<open>poll()\<close> waits.  \<open>w k\<close> is what the \<open>k\<close>-th call of
  \<^verbatim>\<open>poll(poll_fds, num * 2, 1)\<close> returns, with the value of the flag after it.  The loop
  need not end, so it is a partial function: \<open>None\<close> is a loop that never leaves.
  The result counts the calls of \<^verbatim>\<open>poll()\<close>.
\<close>

partial_function (option) poll_wait ::
    "(nat \<Rightarrow> int \<times> bool) \<Rightarrow> nat \<Rightarrow> bool \<Rightarrow> int \<Rightarrow> (fault + (int \<times> nat)) option" where
  "poll_wait w k done r =
     (if \<not> done \<and> r = 0
      then (case w k of
              (r', done') \<Rightarrow>
                if r' < 0 then Some (Inl CephAbort) else poll_wait w (Suc k) done' r')
      else Some (Inr (r, k)))"

definition got_event :: "hw \<Rightarrow> completion_channel \<Rightarrow> completion_channel" where
  "got_event h cc = cc\<lparr>cc_events := cc_events cc @ [get_cq_event h cc]\<rparr>"

definition get_cq_events :: "hw \<Rightarrow> device \<Rightarrow> fault + device" where
  "get_cq_events h d =
     (case deref (tx_cc d) of
        Inl f \<Rightarrow> Inl f
      | Inr t \<Rightarrow>
          let d1 = d\<lparr>tx_cc := Live (got_event h t)\<rparr>
          in case deref (rx_cc d1) of
               Inl f \<Rightarrow> Inl f
             | Inr r \<Rightarrow> Inr (d1\<lparr>rx_cc := Live (got_event h r)\<rparr>))"

fun drain_devices :: "hw \<Rightarrow> device list \<Rightarrow> fault + device list" where
  "drain_devices h [] = Inr []"
| "drain_devices h (d # ds) =
     (case get_cq_events h d of
        Inl f \<Rightarrow> Inl f
      | Inr d' \<Rightarrow>
          (case drain_devices h ds of
             Inl f \<Rightarrow> Inl f
           | Inr ds' \<Rightarrow> Inr (d' # ds')))"

definition poll_blocking ::
    "hw \<Rightarrow> (nat \<Rightarrow> int \<times> bool) \<Rightarrow> bool \<Rightarrow> device_list \<Rightarrow>
     (fault + (int \<times> nat \<times> device_list)) option" where
  "poll_blocking h w done dl =
     (case poll_wait w 0 done 0 of
        None \<Rightarrow> None
      | Some (Inl f) \<Rightarrow> Some (Inl f)
      | Some (Inr (r, k)) \<Rightarrow>
          if r \<le> 0 then Some (Inr (r, k, dl))
          else case drain_devices h (devices dl) of
                 Inl f \<Rightarrow> Some (Inl f)
               | Inr ds \<Rightarrow> Some (Inr (r, k, dl\<lparr>devices := ds\<rparr>)))"

subsection \<open>Port\<close>

record ibv_port_attr =
  lid :: "16 word"
  gid_tbl_len :: int

text \<open>
  The members a \<^verbatim>\<open>Port\<close> constructor writes.  A GID is the sixteen bytes of
  \<^verbatim>\<open>union ibv_gid\<close>.
\<close>

record port =
  port_num :: "8 word"
  port_lid :: "16 word"
  gid :: "8 word list"
  gid_idx :: int

text \<open>
  The answers of the verbs library to a port: \<^verbatim>\<open>ibv_query_port\<close> (return value and
  attributes), \<^verbatim>\<open>ibv_query_gid\<close> at an index (return value and GID) and
  \<^verbatim>\<open>ibv_exp_query_gid_attr\<close> at an index (return value and \<^verbatim>\<open>gid_attr.type\<close>).
\<close>

record port_hw =
  ibv_query_port :: "int \<times> ibv_port_attr"
  ibv_query_gid :: "int \<Rightarrow> int \<times> 8 word list"
  ibv_exp_query_gid_attr :: "int \<Rightarrow> int \<times> int"

text \<open>\<^verbatim>\<open>memcmp(&gid, &cgid, 16) == 0\<close>.\<close>

definition memcmp16_eq :: "8 word list \<Rightarrow> 8 word list \<Rightarrow> bool" where
  "memcmp16_eq a b = (take 16 a = take 16 b)"

text \<open>
  The \<^verbatim>\<open>for\<close> loop over \<^verbatim>\<open>gid_idx\<close>: the arguments are \<^verbatim>\<open>malformed\<close>, the table length,
  the current \<^verbatim>\<open>gid_idx\<close> and the current content of \<^verbatim>\<open>gid\<close>; the result is the pair of
  both when the loop is left.
\<close>

function gid_search ::
    "port_hw \<Rightarrow> config \<Rightarrow> bool \<Rightarrow> int \<Rightarrow> int \<Rightarrow> 8 word list \<Rightarrow> fault + (int \<times> 8 word list)" where
  "gid_search p c malformed len idx g =
     (if idx < len
      then (case ibv_query_gid p idx of
              (r, g') \<Rightarrow>
                if r \<noteq> 0 then Inl CephAbort
                else (case ibv_exp_query_gid_attr p idx of
                        (r2, ty) \<Rightarrow>
                          if r2 \<noteq> 0 then Inl CephAbort
                          else if malformed then Inr (idx, g')
                          else if ty = ms_async_rdma_roce_ver c \<and> memcmp16_eq g' (snd (sscanf_gid c))
                               then Inr (idx, g')
                               else gid_search p c malformed len (idx + 1) g'))
      else Inr (idx, g))"
  by pat_completeness auto
termination
  by (relation "measure (\<lambda>(p, c, malformed, len, idx, g). nat (len - idx))") auto

text \<open>The equation of the loop is unfolded one iteration at a time, by hand.\<close>

declare gid_search.simps [simp del]

text \<open>
  \<^verbatim>\<open>Port::Port\<close>.  \<open>have_ibv_exp\<close> chooses the branch of \<^verbatim>\<open>#ifdef HAVE_IBV_EXP\<close>;
  \<open>this0\<close> holds the members as they are when the body starts (the branch without
  experimental verbs never assigns \<open>gid_idx\<close>, and a loop that is never entered leaves
  \<open>gid\<close> alone).
\<close>

definition Port_ctor :: "bool \<Rightarrow> port_hw \<Rightarrow> config \<Rightarrow> 8 word \<Rightarrow> port \<Rightarrow> fault + port" where
  "Port_ctor have_ibv_exp p c ipn this0 =
     (case ibv_query_port p of
        (r, port_attr) \<Rightarrow>
          if r = - 1 then Inl CephAbort
          else if have_ibv_exp
          then (let malformed = (fst (sscanf_gid c) \<noteq> 16)
                in case gid_search p c malformed (gid_tbl_len port_attr) 0 (gid this0) of
                     Inl f \<Rightarrow> Inl f
                   | Inr (i, g) \<Rightarrow>
                       if i = gid_tbl_len port_attr then Inl CephAbort
                       else Inr \<lparr>port_num = ipn, port_lid = lid port_attr, gid = g, gid_idx = i\<rparr>)
          else (case ibv_query_gid p 0 of
                  (r', g) \<Rightarrow>
                    if r' \<noteq> 0 then Inl CephAbort
                    else Inr \<lparr>port_num = ipn, port_lid = lid port_attr, gid = g,
                              gid_idx = gid_idx this0\<rparr>))"

subsection \<open>Example inputs and the notions the statements use\<close>

text \<open>
  A device \<^verbatim>\<open>mlx5_0\<close> whose hardware answers every call with success and hands out two
  receive chunks, and a configuration of 512 receive and 1024 send buffers.
\<close>

definition chunk_a :: chunk where
  "chunk_a = \<lparr>chunk_ptr = 4096, buffer = 65536, bytes = 131072, mr = \<lparr>lkey = 7\<rparr>\<rparr>"

definition chunk_b :: chunk where
  "chunk_b = \<lparr>chunk_ptr = 4160, buffer = 196608, bytes = 131072, mr = \<lparr>lkey = 7\<rparr>\<rparr>"

definition attr0 :: ibv_device_attr where
  "attr0 = \<lparr>max_srq_wr = 1024, max_qp_wr = 16384, max_cqe = 65536\<rparr>"

definition hw_ok :: hw where
  "hw_ok = \<lparr>ibv_query_device = (0, attr0), set_nonblock = 0, ibv_create_srq = True,
            get_channel_buffers = (\<lambda>m b. (2, [chunk_a, chunk_b])),
            ibv_post_srq_recv = (\<lambda>q w. (0, 0)),
            cc_init = (\<lambda>cc. 0), cq_init = (\<lambda>cq. 0),
            poll_cq = (\<lambda>cq n. 0), rearm_notify = (\<lambda>cq. 0),
            get_cq_event = (\<lambda>cc. False)\<rparr>"

definition conf0 :: config where
  "conf0 = \<lparr>ms_async_rdma_receive_buffers = 512, ms_async_rdma_send_buffers = 1024,
            ms_async_rdma_buffer_size = 131072, ms_async_rdma_enable_hugepage = False,
            ms_async_rdma_roce_ver = 1,
            sscanf_gid = (16, [254, 128, 0, 0, 0, 0, 0, 0, 126, 254, 144, 255, 254, 114, 110, 254])\<rparr>"

text \<open>The device as its constructor leaves it.\<close>

definition dev_fresh :: device where
  "dev_fresh =
     \<lparr>dev_name = ''mlx5_0'', device_attr = attr0, initialized = False,
      pd = Null, memory_manager = Null, srq = Null,
      tx_cc = Live \<lparr>cc_fd = 10, cc_events = [], cc_acks = 0\<rparr>,
      rx_cc = Live \<lparr>cc_fd = 11, cc_events = [], cc_acks = 0\<rparr>,
      tx_cq = Null, rx_cq = Null, max_recv_wr = 0, max_send_wr = 0\<rparr>"

definition srq_ready :: ibv_srq where
  "srq_ready =
     \<lparr>srq_max_wr = 512, srq_max_sge = 1,
      srq_posts = [(recv_wr_of chunk_a, 0), (recv_wr_of chunk_b, 0)]\<rparr>"

definition mm_ready :: memory_manager where
  "mm_ready = \<lparr>mm_hugepage = False, mm_buffer_size = 131072, mm_rx = 512, mm_tx = 1024\<rparr>"

definition cq_new :: "string \<Rightarrow> unit ptr \<Rightarrow> completion_queue" where
  "cq_new nm cc =
     \<lparr>cq_device = nm, cq_depth = 30000, cq_channel = cc, cq_polls = [], cq_rearms = []\<rparr>"

text \<open>The same device after \<^verbatim>\<open>init()\<close>.\<close>

definition dev_ready :: device where
  "dev_ready =
     \<lparr>dev_name = ''mlx5_0'', device_attr = attr0, initialized = True,
      pd = Live \<lparr>pd_device = ''mlx5_0''\<rparr>, memory_manager = Live mm_ready,
      srq = Live srq_ready,
      tx_cc = Live \<lparr>cc_fd = 10, cc_events = [], cc_acks = 0\<rparr>,
      rx_cc = Live \<lparr>cc_fd = 11, cc_events = [], cc_acks = 0\<rparr>,
      tx_cq = Live (cq_new ''mlx5_0'' (Live ())), rx_cq = Live (cq_new ''mlx5_0'' (Live ())),
      max_recv_wr = 512, max_send_wr = 1024\<rparr>"

text \<open>After \<^verbatim>\<open>init()\<close> and \<^verbatim>\<open>uninit()\<close>.\<close>

definition dev_gone :: device where
  "dev_gone =
     \<lparr>dev_name = ''mlx5_0'', device_attr = attr0, initialized = False,
      pd = Dangling, memory_manager = Dangling, srq = Dangling,
      tx_cc = Dangling, rx_cc = Dangling, tx_cq = Dangling, rx_cq = Dangling,
      max_recv_wr = 512, max_send_wr = 1024\<rparr>"

text \<open>After \<^verbatim>\<open>init()\<close>, \<^verbatim>\<open>uninit()\<close> and \<^verbatim>\<open>init()\<close> again.\<close>

definition dev_again :: device where
  "dev_again =
     \<lparr>dev_name = ''mlx5_0'', device_attr = attr0, initialized = True,
      pd = Live \<lparr>pd_device = ''mlx5_0''\<rparr>, memory_manager = Live mm_ready,
      srq = Live srq_ready,
      tx_cc = Dangling, rx_cc = Dangling,
      tx_cq = Live (cq_new ''mlx5_0'' Dangling), rx_cq = Live (cq_new ''mlx5_0'' Dangling),
      max_recv_wr = 512, max_send_wr = 1024\<rparr>"

text \<open>
  The device in the middle of \<^verbatim>\<open>init()\<close>, when \<^verbatim>\<open>post_channel_cluster()\<close> is called:
  the receive queue exists and is empty.
\<close>

definition srq_empty :: ibv_srq where
  "srq_empty = \<lparr>srq_max_wr = 512, srq_max_sge = 1, srq_posts = []\<rparr>"

definition dev_posting :: device where
  "dev_posting =
     dev_fresh\<lparr>pd := Live \<lparr>pd_device = ''mlx5_0''\<rparr>, memory_manager := Live mm_ready,
               srq := Live srq_empty, max_recv_wr := 512, max_send_wr := 1024\<rparr>"

text \<open>
  Hardware that differs from \<open>hw_ok\<close> in one answer: a memory manager without chunks;
  a receive queue with room for one request, which refuses the next with
  \<^verbatim>\<open>ENOMEM\<close> (12) and sets \<^verbatim>\<open>errno\<close>; one that refuses with 12 and leaves \<^verbatim>\<open>errno\<close> at 0;
  completion queues that report three completions; completion queues whose re-arm fails.
\<close>

definition hw_no_chunks :: hw where
  "hw_no_chunks = hw_ok\<lparr>get_channel_buffers := (\<lambda>m b. (0, []))\<rparr>"

definition hw_room_for_one :: hw where
  "hw_room_for_one =
     hw_ok\<lparr>ibv_post_srq_recv := (\<lambda>q w. if srq_posts q = [] then (0, 0) else (12, 12))\<rparr>"

definition hw_errno_unset :: hw where
  "hw_errno_unset = hw_ok\<lparr>ibv_post_srq_recv := (\<lambda>q w. (12, 0))\<rparr>"

definition hw_three :: hw where
  "hw_three = hw_ok\<lparr>poll_cq := (\<lambda>q n. 3)\<rparr>"

definition hw_rearm_fails :: hw where
  "hw_rearm_fails = hw_ok\<lparr>rearm_notify := (\<lambda>q. - 1)\<rparr>"


text \<open>
  A device that can be polled: if it is marked initialized, both completion queues
  exist.  \<^verbatim>\<open>init()\<close> and \<^verbatim>\<open>uninit()\<close> leave every device so.
\<close>

definition device_ok :: "device \<Rightarrow> bool" where
  "device_ok d = (if initialized d then is_live (tx_cq d) \<and> is_live (rx_cq d) else True)"

text \<open>The method a polling call applies to each device.\<close>

fun device_poll :: "hw \<Rightarrow> poll_call \<Rightarrow> device \<Rightarrow> fault + (int \<times> device)" where
  "device_poll h (PollTx n) dev = poll_tx_cq h dev n"
| "device_poll h (PollRx n) dev = poll_rx_cq h dev n"

text \<open>
  The order of a rotation: the \<open>len\<close> device indices that follow the cursor \<open>c\<close> in a
  list of \<open>n\<close> devices.
\<close>

definition rotation :: "int \<Rightarrow> nat \<Rightarrow> nat \<Rightarrow> nat list" where
  "rotation c n len = map (\<lambda>j. nat ((c + 1 + int j) mod int n)) [0..<len]"

text \<open>
  A second device \<^verbatim>\<open>mlx5_1\<close>, a list of both with the cursor at 1 (so that \<^verbatim>\<open>mlx5_0\<close> is
  next), and completion queues that answer \<open>- 1\<close> on \<^verbatim>\<open>mlx5_0\<close> and 5 on \<^verbatim>\<open>mlx5_1\<close>.
\<close>

definition dev_ready1 :: device where
  "dev_ready1 =
     dev_ready\<lparr>dev_name := ''mlx5_1'',
               pd := Live \<lparr>pd_device = ''mlx5_1''\<rparr>,
               tx_cc := Live \<lparr>cc_fd = 12, cc_events = [], cc_acks = 0\<rparr>,
               rx_cc := Live \<lparr>cc_fd = 13, cc_events = [], cc_acks = 0\<rparr>,
               tx_cq := Live (cq_new ''mlx5_1'' (Live ())),
               rx_cq := Live (cq_new ''mlx5_1'' (Live ()))\<rparr>"

definition two_devices :: device_list where
  "two_devices = \<lparr>devices = [dev_ready, dev_ready1], last_poll_dev = 1\<rparr>"

definition hw_error_first :: hw where
  "hw_error_first = hw_ok\<lparr>poll_cq := (\<lambda>q n. if cq_device q = ''mlx5_0'' then - 1 else 5)\<rparr>"


text \<open>
  What the caller of a device's polling method, and of a list's, gets back: the return
  value; and the return value, \<^verbatim>\<open>*d\<close> and the trace.
\<close>

definition answer :: "fault + (int \<times> device) \<Rightarrow> fault + int" where
  "answer r = map_sum id fst r"

definition outcome ::
    "fault + (int \<times> nat option \<times> (nat \<times> int) list \<times> device_list) \<Rightarrow>
     fault + (int \<times> nat option \<times> (nat \<times> int) list)" where
  "outcome r = map_sum id (\<lambda>(n, d, tr, dl). (n, d, tr)) r"

definition outcomes ::
    "fault + (int list \<times> (nat \<times> int) list \<times> device_list) \<Rightarrow>
     fault + (int list \<times> (nat \<times> int) list \<times> int)" where
  "outcomes r = map_sum id (\<lambda>(ns, tr, dl). (ns, tr, cursor dl)) r"


text \<open>Both completion channels of a device exist.\<close>

definition channels_live :: "device \<Rightarrow> bool" where
  "channels_live d = (is_live (tx_cc d) \<and> is_live (rx_cc d))"

text \<open>A wait that times out twice and then reports one ready descriptor.\<close>

definition wait_third :: "nat \<Rightarrow> int \<times> bool" where
  "wait_third k = (if k < 2 then (0, False) else (1, False))"

text \<open>
  Entry \<open>i\<close> of the GID table is the one looked for: its type is the configured
  protocol version and its sixteen bytes are those parsed from the configured string.
\<close>

definition gid_matches :: "port_hw \<Rightarrow> config \<Rightarrow> int \<Rightarrow> bool" where
  "gid_matches p c i =
     (snd (ibv_exp_query_gid_attr p i) = ms_async_rdma_roce_ver c \<and>
      memcmp16_eq (snd (ibv_query_gid p i)) (snd (sscanf_gid c)))"

text \<open>
  A port with a table of five GIDs, entry \<open>i\<close> ending in the byte \<open>i\<close>; entries 0 to 2
  are of type 0, entries 3 and 4 of type 1.  The configured GID of \<open>conf0\<close> is not in the
  table; \<open>conf3\<close> asks for entry 3, \<open>conf_bad\<close> holds a string \<^verbatim>\<open>sscanf\<close> reads nothing
  from.  \<open>port_hw_empty\<close> has no table, \<open>port_hw_fails\<close> fails every GID query,
  \<open>port_hw_fails_at1\<close> that of entry 1, \<open>port_hw_negative\<close> reports a table length of
  \<open>- 1\<close>, \<open>port_hw_no_port\<close> fails the port query.
\<close>

definition gid_entry :: "int \<Rightarrow> 8 word list" where
  "gid_entry i = [254, 128, 0, 0, 0, 0, 0, 0, 0, 0, 0, 0, 0, 0, 0, word_of_int i]"

definition port_hw0 :: port_hw where
  "port_hw0 =
     \<lparr>ibv_query_port = (0, \<lparr>lid = 7, gid_tbl_len = 5\<rparr>),
      ibv_query_gid = (\<lambda>i. (0, gid_entry i)),
      ibv_exp_query_gid_attr = (\<lambda>i. (0, if i < 3 then 0 else 1))\<rparr>"

definition port_hw_empty :: port_hw where
  "port_hw_empty = port_hw0\<lparr>ibv_query_port := (0, \<lparr>lid = 7, gid_tbl_len = 0\<rparr>)\<rparr>"

definition port_hw_fails :: port_hw where
  "port_hw_fails = port_hw0\<lparr>ibv_query_gid := (\<lambda>i. (- 1, []))\<rparr>"

definition port_hw_fails_at1 :: port_hw where
  "port_hw_fails_at1 =
     port_hw0\<lparr>ibv_query_gid := (\<lambda>i. if i = 1 then (- 1, []) else (0, gid_entry i))\<rparr>"

definition port_hw_negative :: port_hw where
  "port_hw_negative = port_hw0\<lparr>ibv_query_port := (0, \<lparr>lid = 7, gid_tbl_len = - 1\<rparr>)\<rparr>"

definition port_hw_no_port :: port_hw where
  "port_hw_no_port = port_hw0\<lparr>ibv_query_port := (- 1, \<lparr>lid = 0, gid_tbl_len = 0\<rparr>)\<rparr>"

definition conf3 :: config where
  "conf3 = conf0\<lparr>sscanf_gid := (16, gid_entry 3)\<rparr>"

definition conf_bad :: config where
  "conf_bad = conf0\<lparr>sscanf_gid := (0, [])\<rparr>"

definition port0 :: port where
  "port0 = \<lparr>port_num = 0, port_lid = 0, gid = [], gid_idx = 0\<rparr>"


text \<open>
  A configuration that asks for 4294967295 receive buffers, and the device \<^verbatim>\<open>init()\<close>
  makes of \<open>dev_fresh\<close> under it.
\<close>

definition conf_huge :: config where
  "conf_huge = conf0\<lparr>ms_async_rdma_receive_buffers := 4294967295\<rparr>"

definition dev_huge :: device where
  "dev_huge =
     dev_ready\<lparr>memory_manager := Live (mm_ready\<lparr>mm_rx := 4294967295\<rparr>),
               srq := Live (srq_ready\<lparr>srq_max_wr := 4294967295\<rparr>),
               max_recv_wr := 4294967295\<rparr>"


text \<open>
  Lists for the edges of the polling loop: three devices with the cursor at the largest
  \<^verbatim>\<open>int\<close>; the two devices with the cursor at \<open>- 2\<close>; a device marked initialized that has
  no completion queue, alone in a list; an initialized device followed by one that is
  not, with the cursor at 1.
\<close>

definition three_devices_at_max :: device_list where
  "three_devices_at_max =
     \<lparr>devices = [dev_ready, dev_ready1, dev_fresh], last_poll_dev = 2147483647\<rparr>"

definition two_devices_below :: device_list where
  "two_devices_below = two_devices\<lparr>last_poll_dev := - 2\<rparr>"

definition one_without_queue :: device_list where
  "one_without_queue = \<lparr>devices = [dev_fresh\<lparr>initialized := True\<rparr>], last_poll_dev = 0\<rparr>"

definition ready_then_fresh :: device_list where
  "ready_then_fresh = \<lparr>devices = [dev_ready, dev_fresh], last_poll_dev = 1\<rparr>"

text \<open>The two devices after \<^verbatim>\<open>uninit()\<close> on the first.\<close>

definition gone_then_ready :: device_list where
  "gone_then_ready = two_devices\<lparr>devices := [dev_gone, dev_ready1]\<rparr>"

text \<open>The devices a polling call leaves behind.\<close>

definition devices_after ::
    "fault + (int \<times> nat option \<times> (nat \<times> int) list \<times> device_list) \<Rightarrow> fault + device list" where
  "devices_after r = map_sum id (\<lambda>(n, d, tr, dl). devices dl) r"

section \<open>Properties\<close>

subsection \<open>init and uninit are idempotent\<close>

lemma init_Inr_initialized:
  assumes "init h c d = Inr d'"
  shows "initialized d'"
proof (cases "initialized d")
  case True
  with assms show ?thesis by (simp add: init_def)
next
  case False
  with assms obtain d4 where "init_queues h d4 = Inr d'"
    by (auto simp: init_def Let_def split: prod.splits if_splits sum.splits)
  then show ?thesis
    by (auto simp: init_queues_def Let_def split: if_splits)
qed

lemma uninit_delete_initialized:
  "uninit_delete d = Inr d' \<Longrightarrow> initialized d' = initialized d"
  by (auto simp: uninit_delete_def split: sum.splits)

lemma uninit_Inr_not_initialized:
  assumes "uninit d = Inr d'"
  shows "\<not> initialized d'"
proof (cases "initialized d")
  case False
  with assms show ?thesis by (simp add: uninit_def)
next
  case True
  with assms obtain d1 where "uninit_delete (d1\<lparr>initialized := False\<rparr>) = Inr d'"
    by (auto simp: uninit_def split: sum.splits)
  then show ?thesis by (auto dest: uninit_delete_initialized)
qed

text \<open>
  C3.  \<^verbatim>\<open>init()\<close> on a device that is already initialized returns at once and leaves
  every field as it was; \<^verbatim>\<open>uninit()\<close> on a device that is not initialized does the
  same.  Hence a second \<^verbatim>\<open>init()\<close> after one that returned, and a second
  \<^verbatim>\<open>uninit()\<close> after one that returned, change nothing.
\<close>

theorem init_uninit_idempotent:
  "(initialized d \<longrightarrow> init h c d = Inr d) \<and>
   (\<not> initialized d \<longrightarrow> uninit d = Inr d) \<and>
   (init h c d = Inr d' \<longrightarrow> init h2 c2 d' = Inr d') \<and>
   (uninit d = Inr d' \<longrightarrow> uninit d' = Inr d')"
proof (intro conjI impI)
  assume "initialized d"
  then show "init h c d = Inr d" by (simp add: init_def)
next
  assume "\<not> initialized d"
  then show "uninit d = Inr d" by (simp add: uninit_def)
next
  assume "init h c d = Inr d'"
  then have "initialized d'" by (rule init_Inr_initialized)
  then show "init h2 c2 d' = Inr d'" by (simp add: init_def)
next
  assume "uninit d = Inr d'"
  then have "\<not> initialized d'" by (rule uninit_Inr_not_initialized)
  then show "uninit d' = Inr d'" by (simp add: uninit_def)
qed

subsection \<open>Posting receive buffers\<close>

lemma post_chunk_Live:
  assumes "srq d = Live q" and "ibv_post_srq_recv h q (recv_wr_of c) = (ret, errno)"
  shows "post_chunk h d c =
           Inr (if ret \<noteq> 0 then - errno else 0,
                d\<lparr>srq := Live (q\<lparr>srq_posts := srq_posts q @ [(recv_wr_of c, ret)]\<rparr>)\<rparr>)"
  using assms by (simp add: post_chunk_def Let_def)

lemma post_chunk_frame:
  assumes "post_chunk h d c = Inr (r, d')"
  shows "\<exists>q q'. srq d = Live q \<and> d' = d\<lparr>srq := Live q'\<rparr> \<and>
          srq_posts q' = srq_posts q @ [(recv_wr_of c, fst (ibv_post_srq_recv h q (recv_wr_of c)))]"
proof (cases "srq d")
  case (Live q)
  with assms show ?thesis
    by (auto simp: post_chunk_def Let_def split: prod.splits if_splits)
next
  case Null
  with assms show ?thesis by (simp add: post_chunk_def)
next
  case Dangling
  with assms show ?thesis by (simp add: post_chunk_def)
qed

lemma post_chunks_frame:
  "post_chunks h d cs = Inr d' \<Longrightarrow> \<exists>s. d' = d\<lparr>srq := s\<rparr>"
proof (induction cs arbitrary: d)
  case Nil
  then have "d' = d\<lparr>srq := srq d\<rparr>" by simp
  then show ?case ..
next
  case (Cons c cs)
  from Cons.prems obtain d1 where
    pc: "post_chunk h d c = Inr (0, d1)" and rest: "post_chunks h d1 cs = Inr d'"
    by (auto split: sum.splits if_splits)
  from post_chunk_frame [OF pc] obtain q1 where d1: "d1 = d\<lparr>srq := Live q1\<rparr>" by blast
  from Cons.IH [OF rest] obtain s where "d' = d1\<lparr>srq := s\<rparr>" ..
  with d1 have "d' = d\<lparr>srq := s\<rparr>" by simp
  then show ?case ..
qed

lemma post_chunks_posts:
  "post_chunks h d cs = Inr d' \<Longrightarrow> srq d = Live q \<Longrightarrow>
     \<exists>q'. srq d' = Live q' \<and> map fst (srq_posts q') = map fst (srq_posts q) @ map recv_wr_of cs"
proof (induction cs arbitrary: d q)
  case Nil
  then show ?case by simp
next
  case (Cons c cs)
  from Cons.prems(1) obtain d1 where
    pc: "post_chunk h d c = Inr (0, d1)" and rest: "post_chunks h d1 cs = Inr d'"
    by (auto split: sum.splits if_splits)
  from post_chunk_frame [OF pc] Cons.prems(2) obtain q1 where
    q1: "srq d1 = Live q1"
        "srq_posts q1 = srq_posts q @ [(recv_wr_of c, fst (ibv_post_srq_recv h q (recv_wr_of c)))]"
    by auto
  from Cons.IH [OF rest q1(1)] obtain q' where
    "srq d' = Live q'" "map fst (srq_posts q') = map fst (srq_posts q1) @ map recv_wr_of cs"
    by blast
  with q1(2) show ?case by simp
qed

lemma post_chunks_live:
  assumes "post_chunks h d cs = Inr d'" and "cs \<noteq> []"
  shows "is_live (srq d')"
proof -
  from assms obtain c cs' where cs: "cs = c # cs'" by (cases cs) auto
  with assms(1) obtain d1 where "post_chunk h d c = Inr (0, d1)"
    by (auto split: sum.splits if_splits)
  from post_chunk_frame [OF this] obtain q where q: "srq d = Live q" by blast
  from post_chunks_posts [OF assms(1) q] show ?thesis by auto
qed





subsection \<open>The shape of a device after init and after uninit\<close>

lemma init_queues_frame:
  assumes "init_queues h d = Inr d'"
  shows "\<exists>t r. d' = d\<lparr>tx_cq := Live t, rx_cq := Live r, initialized := True\<rparr> \<and>
           cq_channel t = ptr_value (tx_cc d) \<and> cq_channel r = ptr_value (rx_cc d)"
proof -
  from assms have t: "cq_init h (cq_new (dev_name d) (ptr_value (tx_cc d))) = 0"
    and r: "cq_init h (cq_new (dev_name d) (ptr_value (rx_cc d))) = 0"
    by (auto simp: init_queues_def create_comp_queue_def cq_new_def CQ_DEPTH_def Let_def
             split: if_splits)
  with assms have
    "d' = d\<lparr>tx_cq := Live (cq_new (dev_name d) (ptr_value (tx_cc d))),
            rx_cq := Live (cq_new (dev_name d) (ptr_value (rx_cc d))), initialized := True\<rparr>"
    by (simp add: init_queues_def create_comp_queue_def cq_new_def CQ_DEPTH_def Let_def)
  moreover have "cq_channel (cq_new (dev_name d) (ptr_value (tx_cc d))) = ptr_value (tx_cc d)"
    and "cq_channel (cq_new (dev_name d) (ptr_value (rx_cc d))) = ptr_value (rx_cc d)"
    by (simp_all add: cq_new_def)
  ultimately show ?thesis by blast
qed

lemma post_channel_cluster_frame:
  assumes "post_channel_cluster h d = Inr (r, d')"
  shows "\<exists>s. d' = d\<lparr>srq := s\<rparr>"
proof -
  from assms obtain cs where "post_chunks h d cs = Inr d'"
    by (auto simp: post_channel_cluster_def split: sum.splits prod.splits if_splits)
  then show ?thesis by (rule post_chunks_frame)
qed

lemma init_fresh_shape:
  assumes "init h c d = Inr d'" and "\<not> initialized d"
  shows "\<exists>m s t r.
           d' = d\<lparr>device_attr := snd (ibv_query_device h),
                  pd := Live \<lparr>pd_device = dev_name d\<rparr>,
                  max_recv_wr := std_min (max_srq_wr (snd (ibv_query_device h)))
                      (int_cast (ms_async_rdma_receive_buffers c)),
                  max_send_wr := std_min (max_qp_wr (snd (ibv_query_device h)))
                      (int_cast (ms_async_rdma_send_buffers c)),
                  memory_manager := Live m, srq := s,
                  tx_cq := Live t, rx_cq := Live r, initialized := True\<rparr> \<and>
           cq_channel t = ptr_value (tx_cc d) \<and> cq_channel r = ptr_value (rx_cc d)"
proof -
  define d3 where "d3 = init_memory c (init_limits c
      (d\<lparr>device_attr := snd (ibv_query_device h), pd := Live \<lparr>pd_device = dev_name d\<rparr>\<rparr>))"
  from assms obtain q r' d4 where
    pcc: "post_channel_cluster h (d3\<lparr>srq := q\<rparr>) = Inr (r', d4)" and
    iq: "init_queues h d4 = Inr d'"
    by (auto simp: init_def d3_def Let_def split: prod.splits if_splits sum.splits)
  from post_channel_cluster_frame [OF pcc] obtain s where d4: "d4 = d3\<lparr>srq := s\<rparr>" by auto
  from init_queues_frame [OF iq] obtain t r where
    d': "d' = d4\<lparr>tx_cq := Live t, rx_cq := Live r, initialized := True\<rparr>" and
    ch: "cq_channel t = ptr_value (tx_cc d4)" "cq_channel r = ptr_value (rx_cc d4)"
    by blast
  from d' d4 have
    "d' = d\<lparr>device_attr := snd (ibv_query_device h),
            pd := Live \<lparr>pd_device = dev_name d\<rparr>,
            max_recv_wr := std_min (max_srq_wr (snd (ibv_query_device h)))
                      (int_cast (ms_async_rdma_receive_buffers c)),
            max_send_wr := std_min (max_qp_wr (snd (ibv_query_device h)))
                      (int_cast (ms_async_rdma_send_buffers c)),
            memory_manager := Live \<lparr>mm_hugepage = ms_async_rdma_enable_hugepage c,
                mm_buffer_size = ms_async_rdma_buffer_size c,
                mm_rx = std_min (max_srq_wr (snd (ibv_query_device h)))
                      (int_cast (ms_async_rdma_receive_buffers c)),
                mm_tx = std_min (max_qp_wr (snd (ibv_query_device h)))
                      (int_cast (ms_async_rdma_send_buffers c))\<rparr>,
            srq := s, tx_cq := Live t, rx_cq := Live r, initialized := True\<rparr>"
    by (simp add: d3_def init_memory_def init_limits_def Let_def)
  moreover from ch d4 have "cq_channel t = ptr_value (tx_cc d)" "cq_channel r = ptr_value (rx_cc d)"
    by (simp_all add: d3_def init_memory_def init_limits_def Let_def)
  ultimately show ?thesis by blast
qed

lemma init_fresh_srq_live:
  assumes "init h c d = Inr d'" and "\<not> initialized d"
    and "\<And>m b. fst (get_channel_buffers h m b) = int (length (snd (get_channel_buffers h m b)))"
  shows "is_live (srq d')"
proof -
  define d3 where "d3 = init_memory c (init_limits c
      (d\<lparr>device_attr := snd (ibv_query_device h), pd := Live \<lparr>pd_device = dev_name d\<rparr>\<rparr>))"
  from assms(1,2) obtain q r' d4 where
    pcc: "post_channel_cluster h (d3\<lparr>srq := q\<rparr>) = Inr (r', d4)" and
    iq: "init_queues h d4 = Inr d'"
    by (auto simp: init_def d3_def Let_def split: prod.splits if_splits sum.splits)
  from pcc obtain m r cs where
    g: "get_channel_buffers h m 0 = (r, cs)" and r: "0 < r" and
    pcs: "post_chunks h (d3\<lparr>srq := q\<rparr>) cs = Inr d4"
    by (auto simp: post_channel_cluster_def split: sum.splits prod.splits if_splits)
  from assms(3) [of m 0] g r have "cs \<noteq> []" by auto
  with pcs have "is_live (srq d4)" by (rule post_chunks_live)
  moreover from init_queues_frame [OF iq] have "srq d' = srq d4" by auto
  ultimately show ?thesis by simp
qed

lemma uninit_initialized_shape:
  assumes "uninit d = Inr d'" and "initialized d"
  shows "\<exists>p1 p2 p5 p6 p7.
           d' = d\<lparr>initialized := False, rx_cq := p1, tx_cq := p2, rx_cc := Dangling,
                  tx_cc := Dangling, srq := p5, memory_manager := p6, pd := p7\<rparr> \<and>
           delete (rx_cq d) = Inr p1 \<and> delete (tx_cq d) = Inr p2 \<and> delete (srq d) = Inr p5 \<and>
           delete (memory_manager d) = Inr p6 \<and> delete (pd d) = Inr p7 \<and>
           is_live (tx_cc d) \<and> is_live (rx_cc d)"
proof -
  from assms obtain d1 where ack: "uninit_ack d = Inr d1"
    and del: "uninit_delete (d1\<lparr>initialized := False\<rparr>) = Inr d'"
    by (auto simp: uninit_def split: sum.splits)
  from ack obtain t r where tr: "tx_cc d = Live t" "rx_cc d = Live r"
    and d1: "d1 = d\<lparr>tx_cc := Live (ack_events t), rx_cc := Live (ack_events r)\<rparr>"
    by (cases "tx_cc d"; cases "rx_cc d") (auto simp: uninit_ack_def)
  from del d1 show ?thesis
    using tr by (auto simp: uninit_delete_def split: sum.splits)
qed

lemma delete_released: "delete p = Inr p' \<Longrightarrow> released p'"
  by (cases p) auto

lemma delete_live: "is_live p \<Longrightarrow> delete p = Inr p' \<Longrightarrow> p' = Dangling"
  by (cases p) auto


lemmas example_defs =
  chunk_a_def chunk_b_def attr0_def hw_ok_def conf0_def dev_fresh_def srq_ready_def
  mm_ready_def cq_new_def dev_ready_def dev_gone_def dev_again_def srq_empty_def
  dev_posting_def hw_no_chunks_def hw_room_for_one_def hw_errno_unset_def hw_three_def
  hw_rearm_fails_def

lemmas device_defs =
  Device_ctor_def create_comp_channel_def create_comp_queue_def
  create_shared_receive_queue_def recv_wr_of_def post_chunk_def post_channel_cluster_def
  int_cast_def std_min_def init_limits_def init_memory_def init_queues_def init_def
  ack_events_def uninit_ack_def
  uninit_delete_def uninit_def MAX_SHARED_RX_SGE_COUNT_def CQ_DEPTH_def polled_def
  poll_tx_cq_def poll_rx_cq_def rearmed_def rearm_cqs_def

lemma ctor_example: "Device_ctor hw_ok (Some ''mlx5_0'') True 10 11 = Inr dev_fresh"
  by (simp add: example_defs device_defs)

lemma init_example: "init hw_ok conf0 dev_fresh = Inr dev_ready"
  by (simp add: example_defs device_defs)

lemma uninit_example: "uninit dev_ready = Inr dev_gone"
  by (simp add: example_defs device_defs)

lemma reinit_example: "init hw_ok conf0 dev_gone = Inr dev_again"
  by (simp add: example_defs device_defs)

theorem init_uninit_idempotent_witness:
  "initialized dev_ready \<and> init hw_ok conf0 dev_ready = Inr dev_ready \<and>
   \<not> initialized dev_fresh \<and> uninit dev_fresh = Inr dev_fresh \<and>
   init hw_ok conf0 dev_fresh = Inr dev_ready \<and> init hw_three conf0 dev_ready = Inr dev_ready \<and>
   uninit dev_ready = Inr dev_gone \<and> uninit dev_gone = Inr dev_gone"
proof -
  have i: "initialized dev_ready" by (simp add: dev_ready_def)
  have n: "\<not> initialized dev_fresh" by (simp add: dev_fresh_def)
  note a = init_uninit_idempotent [of dev_ready hw_ok conf0 dev_gone hw_ok conf0]
  note b = init_uninit_idempotent [of dev_fresh hw_ok conf0 dev_ready hw_three conf0]
  from a i have "init hw_ok conf0 dev_ready = Inr dev_ready" by blast
  moreover from b n have "uninit dev_fresh = Inr dev_fresh" by blast
  moreover from b init_example have "init hw_three conf0 dev_ready = Inr dev_ready" by blast
  moreover from a uninit_example have "uninit dev_gone = Inr dev_gone" by blast
  ultimately show ?thesis using i n init_example uninit_example by blast
qed

text \<open>
  C2.  \<^verbatim>\<open>uninit()\<close> deletes the two completion channels, which only the constructor
  creates.  So whenever \<^verbatim>\<open>init()\<close> returns on a device that \<^verbatim>\<open>uninit()\<close> has torn
  down, the device is marked initialized while \<open>tx_cc\<close> and \<open>rx_cc\<close> still point at
  the deleted channels, the new completion queues are bound to them, and the next
  \<^verbatim>\<open>uninit()\<close> calls \<^verbatim>\<open>ack_events()\<close> through a deleted pointer.
\<close>

theorem reinit_keeps_deleted_channels:
  assumes "initialized d1" and "uninit d1 = Inr d2" and "init h c d2 = Inr d3"
  shows "initialized d3 \<and> tx_cc d3 = Dangling \<and> rx_cc d3 = Dangling \<and>
         \<not> is_live (tx_cc d3) \<and> \<not> is_live (rx_cc d3) \<and>
         (\<exists>t r. tx_cq d3 = Live t \<and> rx_cq d3 = Live r \<and>
                cq_channel t = Dangling \<and> cq_channel r = Dangling) \<and>
         uninit d3 = Inl UseAfterFree"
proof -
  from uninit_initialized_shape [OF assms(2,1)]
  have d2: "tx_cc d2 = Dangling" "rx_cc d2 = Dangling" "\<not> initialized d2" by auto
  from init_fresh_shape [OF assms(3) d2(3)] obtain m s t r where
    d3: "d3 = d2\<lparr>device_attr := snd (ibv_query_device h),
                  pd := Live \<lparr>pd_device = dev_name d2\<rparr>,
                  max_recv_wr := std_min (max_srq_wr (snd (ibv_query_device h)))
                      (int_cast (ms_async_rdma_receive_buffers c)),
                  max_send_wr := std_min (max_qp_wr (snd (ibv_query_device h)))
                      (int_cast (ms_async_rdma_send_buffers c)),
                  memory_manager := Live m, srq := s,
                  tx_cq := Live t, rx_cq := Live r, initialized := True\<rparr>" and
    ch: "cq_channel t = ptr_value (tx_cc d2)" "cq_channel r = ptr_value (rx_cc d2)"
    by blast
  from d3 d2 have f: "initialized d3" "tx_cc d3 = Dangling" "rx_cc d3 = Dangling"
    "tx_cq d3 = Live t" "rx_cq d3 = Live r"
    by simp_all
  from ch d2 have c: "cq_channel t = Dangling" "cq_channel r = Dangling" by simp_all
  from f have u: "uninit d3 = Inl UseAfterFree" by (simp add: uninit_def uninit_ack_def)
  from f c u show ?thesis by simp
qed

theorem reinit_keeps_deleted_channels_witness:
  "initialized dev_ready \<and> uninit dev_ready = Inr dev_gone \<and>
   init hw_ok conf0 dev_gone = Inr dev_again \<and>
   initialized dev_again \<and> tx_cc dev_again = Dangling \<and> rx_cc dev_again = Dangling \<and>
   uninit dev_again = Inl UseAfterFree"
proof -
  have i: "initialized dev_ready" by (simp add: dev_ready_def)
  from reinit_keeps_deleted_channels [OF i uninit_example reinit_example]
  show ?thesis using i uninit_example reinit_example by simp
qed

subsection \<open>The operating limits\<close>

lemma sint_int_cast:
  "- 2147483648 \<le> e \<Longrightarrow> e \<le> 2147483647 \<Longrightarrow> sint (int_cast e) = e"
  by (simp add: int_cast_def sint_sbintrunc' signed_take_bit_int_eq_self)

lemma sint_std_min: "sint (std_min a b) = min (sint a) (sint b)"
  by (simp add: std_min_def min_def)

lemma uint_nonneg_sint:
  fixes w :: c_int
  assumes "0 \<le> sint w"
  shows "uint w = sint w"
proof -
  have "sint w < 2 ^ (LENGTH(32) - 1)" by (rule sint_lt)
  then have "sint w < 2 ^ 32" by simp
  moreover have "uint w = take_bit 32 (sint w)" using uint_sint [of w] by simp
  ultimately show ?thesis using assms by (simp add: take_bit_int_eq_self)
qed

text \<open>
  C5.  With a capability \<open>max_srq_wr\<close> of 1024 and a configuration that asks for
  4294967295 receive buffers, \<^verbatim>\<open>init()\<close> returns, and the limit it has computed is not
  the minimum of the two, 1024: the cast to \<^verbatim>\<open>int\<close> makes \<open>- 1\<close> of the count, the
  minimum taken is \<open>- 1\<close>, and the shared receive queue is created for 4294967295 work
  requests, more than the capability.
\<close>

theorem init_limit_above_capability:
  "sint (max_srq_wr (snd (ibv_query_device hw_ok))) = 1024 \<and>
   ms_async_rdma_receive_buffers conf_huge = 4294967295 \<and>
   sint (int_cast (ms_async_rdma_receive_buffers conf_huge)) = - 1 \<and>
   init hw_ok conf_huge dev_fresh = Inr dev_huge \<and>
   sint (max_recv_wr dev_huge) = - 1 \<and> unat (max_recv_wr dev_huge) = 4294967295 \<and>
   srq dev_huge = Live (srq_ready\<lparr>srq_max_wr := 4294967295\<rparr>)"
proof -
  have a: "sint (max_srq_wr (snd (ibv_query_device hw_ok))) = 1024"
    by (simp add: hw_ok_def attr0_def)
  have b: "ms_async_rdma_receive_buffers conf_huge = 4294967295"
    by (simp add: conf_huge_def)
  have c: "sint (int_cast (ms_async_rdma_receive_buffers conf_huge)) = - 1"
    by (simp add: conf_huge_def int_cast_def)
  have d: "init hw_ok conf_huge dev_fresh = Inr dev_huge"
    by (simp add: example_defs device_defs conf_huge_def dev_huge_def)
  have e: "sint (max_recv_wr dev_huge) = - 1" "unat (max_recv_wr dev_huge) = 4294967295"
    "srq dev_huge = Live (srq_ready\<lparr>srq_max_wr := 4294967295\<rparr>)"
    by (simp_all add: dev_huge_def)
  from a b c d e show ?thesis by simp
qed

text \<open>
  For configured counts that an \<^verbatim>\<open>int\<close> can hold, the limits \<^verbatim>\<open>init()\<close> computes on a
  device that was not initialized are the minima of the capabilities it has just
  queried and the configured counts, so neither is above its capability or its
  count; when capability and count are not negative, the same holds of the limit read
  as \<^verbatim>\<open>uint32_t\<close>.
\<close>

theorem init_limits_in_int_range:
  assumes "init h c d = Inr d'" and "\<not> initialized d"
    and "- 2147483648 \<le> ms_async_rdma_receive_buffers c"
    and "ms_async_rdma_receive_buffers c \<le> 2147483647"
    and "- 2147483648 \<le> ms_async_rdma_send_buffers c"
    and "ms_async_rdma_send_buffers c \<le> 2147483647"
  shows "device_attr d' = snd (ibv_query_device h) \<and>
         sint (max_recv_wr d') =
           min (sint (max_srq_wr (device_attr d'))) (ms_async_rdma_receive_buffers c) \<and>
         sint (max_send_wr d') =
           min (sint (max_qp_wr (device_attr d'))) (ms_async_rdma_send_buffers c) \<and>
         sint (max_recv_wr d') \<le> sint (max_srq_wr (device_attr d')) \<and>
         sint (max_recv_wr d') \<le> ms_async_rdma_receive_buffers c \<and>
         sint (max_send_wr d') \<le> sint (max_qp_wr (device_attr d')) \<and>
         sint (max_send_wr d') \<le> ms_async_rdma_send_buffers c \<and>
         (0 \<le> sint (max_srq_wr (device_attr d')) \<and> 0 \<le> ms_async_rdma_receive_buffers c \<longrightarrow>
            uint (max_recv_wr d') =
              min (sint (max_srq_wr (device_attr d'))) (ms_async_rdma_receive_buffers c)) \<and>
         (0 \<le> sint (max_qp_wr (device_attr d')) \<and> 0 \<le> ms_async_rdma_send_buffers c \<longrightarrow>
            uint (max_send_wr d') =
              min (sint (max_qp_wr (device_attr d'))) (ms_async_rdma_send_buffers c))"
proof -
  from init_fresh_shape [OF assms(1,2)] obtain m s t r where
    "d' = d\<lparr>device_attr := snd (ibv_query_device h),
            pd := Live \<lparr>pd_device = dev_name d\<rparr>,
            max_recv_wr := std_min (max_srq_wr (snd (ibv_query_device h)))
                      (int_cast (ms_async_rdma_receive_buffers c)),
            max_send_wr := std_min (max_qp_wr (snd (ibv_query_device h)))
                      (int_cast (ms_async_rdma_send_buffers c)),
            memory_manager := Live m, srq := s,
            tx_cq := Live t, rx_cq := Live r, initialized := True\<rparr>"
    by blast
  then have attr: "device_attr d' = snd (ibv_query_device h)"
    and rw: "max_recv_wr d' = std_min (max_srq_wr (device_attr d'))
                      (int_cast (ms_async_rdma_receive_buffers c))"
    and sw: "max_send_wr d' = std_min (max_qp_wr (device_attr d'))
                      (int_cast (ms_async_rdma_send_buffers c))"
    by simp_all
  have r: "sint (max_recv_wr d') =
      min (sint (max_srq_wr (device_attr d'))) (ms_async_rdma_receive_buffers c)"
    by (simp add: rw sint_std_min sint_int_cast assms(3,4))
  have s: "sint (max_send_wr d') =
      min (sint (max_qp_wr (device_attr d'))) (ms_async_rdma_send_buffers c)"
    by (simp add: sw sint_std_min sint_int_cast assms(5,6))
  have ru: "uint (max_recv_wr d') =
      min (sint (max_srq_wr (device_attr d'))) (ms_async_rdma_receive_buffers c)"
    if "0 \<le> sint (max_srq_wr (device_attr d')) \<and> 0 \<le> ms_async_rdma_receive_buffers c"
  proof -
    from that r have "0 \<le> sint (max_recv_wr d')" by simp
    then have "uint (max_recv_wr d') = sint (max_recv_wr d')" by (rule uint_nonneg_sint)
    with r show ?thesis by simp
  qed
  have su: "uint (max_send_wr d') =
      min (sint (max_qp_wr (device_attr d'))) (ms_async_rdma_send_buffers c)"
    if "0 \<le> sint (max_qp_wr (device_attr d')) \<and> 0 \<le> ms_async_rdma_send_buffers c"
  proof -
    from that s have "0 \<le> sint (max_send_wr d')" by simp
    then have "uint (max_send_wr d') = sint (max_send_wr d')" by (rule uint_nonneg_sint)
    with s show ?thesis by simp
  qed
  from attr r s ru su show ?thesis by simp
qed

theorem init_limits_in_int_range_witness:
  "init hw_ok conf0 dev_fresh = Inr dev_ready \<and> \<not> initialized dev_fresh \<and>
   sint (max_srq_wr (device_attr dev_ready)) = 1024 \<and>
   ms_async_rdma_receive_buffers conf0 = 512 \<and>
   sint (max_recv_wr dev_ready) = 512 \<and> uint (max_recv_wr dev_ready) = 512 \<and>
   sint (max_qp_wr (device_attr dev_ready)) = 16384 \<and>
   ms_async_rdma_send_buffers conf0 = 1024 \<and>
   sint (max_send_wr dev_ready) = 1024 \<and> uint (max_send_wr dev_ready) = 1024"
proof -
  have n: "\<not> initialized dev_fresh" by (simp add: dev_fresh_def)
  have c: "ms_async_rdma_receive_buffers conf0 = 512" "ms_async_rdma_send_buffers conf0 = 1024"
    by (simp_all add: conf0_def)
  have a: "sint (max_srq_wr (device_attr dev_ready)) = 1024"
    "sint (max_qp_wr (device_attr dev_ready)) = 16384"
    by (simp_all add: dev_ready_def attr0_def)
  note th = init_limits_in_int_range [OF init_example n]
  from th c a have "sint (max_recv_wr dev_ready) = 512" "uint (max_recv_wr dev_ready) = 512"
    "sint (max_send_wr dev_ready) = 1024" "uint (max_send_wr dev_ready) = 1024"
    by simp_all
  with n c a init_example show ?thesis by simp
qed



subsection \<open>post_chunk\<close>

text \<open>
  C7.  \<^verbatim>\<open>post_chunk\<close> tests the return value of \<^verbatim>\<open>ibv_post_srq_recv\<close> and then returns
  \<^verbatim>\<open>-errno\<close>, which the failed call need not have set.  Here the submission is refused
  (the call returns 12) while \<^verbatim>\<open>errno\<close> is 0: the request was handed to the receive queue
  once, and \<^verbatim>\<open>post_chunk\<close> returns 0, the value of a successful submission, not a negative
  error code.
\<close>

theorem post_chunk_zero_on_refusal:
  "ibv_post_srq_recv hw_errno_unset srq_empty (recv_wr_of chunk_a) = (12, 0) \<and>
   post_chunk hw_errno_unset dev_posting chunk_a =
     Inr (0, dev_posting\<lparr>srq := Live (srq_empty\<lparr>srq_posts := [(recv_wr_of chunk_a, 12)]\<rparr>)\<rparr>)"
  by (simp add: post_chunk_def Let_def dev_posting_def srq_empty_def hw_errno_unset_def hw_ok_def)

text \<open>
  What \<^verbatim>\<open>post_chunk\<close> does on every input.  On a device whose receive queue exists,
  \<^verbatim>\<open>post_chunk(chunk)\<close> builds one receive request with a single segment (the chunk's
  buffer address, length and local key), the chunk's own address as \<open>wr_id\<close> and no
  successor, hands it to the queue once, and returns 0 when that call returns 0 and
  \<open>- errno\<close> when it returns nonzero.  The result is zero exactly on success and negative
  exactly on failure whenever \<^verbatim>\<open>errno\<close> is positive after the call.
\<close>

theorem post_chunk_returns_negated_errno:
  assumes "srq d = Live q" and "ibv_post_srq_recv h q (recv_wr_of c) = (ret, errno)"
  shows "recv_wr_of c =
           \<lparr>wr_id = chunk_ptr c, wr_next = Null,
            sg_list = [\<lparr>sge_addr = buffer c, sge_length = bytes c, sge_lkey = lkey (mr c)\<rparr>],
            num_sge = 1\<rparr> \<and>
         post_chunk h d c =
           Inr (if ret \<noteq> 0 then - errno else 0,
                d\<lparr>srq := Live (q\<lparr>srq_posts := srq_posts q @ [(recv_wr_of c, ret)]\<rparr>)\<rparr>) \<and>
         (\<forall>r d'. post_chunk h d c = Inr (r, d') \<longrightarrow>
            (ret = 0 \<longrightarrow> r = 0) \<and> (ret \<noteq> 0 \<longrightarrow> r = - errno) \<and>
            (0 < errno \<longrightarrow> (r = 0 \<longleftrightarrow> ret = 0) \<and> (r < 0 \<longleftrightarrow> ret \<noteq> 0)))"
proof -
  have wr: "recv_wr_of c =
           \<lparr>wr_id = chunk_ptr c, wr_next = Null,
            sg_list = [\<lparr>sge_addr = buffer c, sge_length = bytes c, sge_lkey = lkey (mr c)\<rparr>],
            num_sge = 1\<rparr>"
    by (simp add: recv_wr_of_def)
  note res = post_chunk_Live [OF assms]
  have "\<forall>r d'. post_chunk h d c = Inr (r, d') \<longrightarrow>
            (ret = 0 \<longrightarrow> r = 0) \<and> (ret \<noteq> 0 \<longrightarrow> r = - errno) \<and>
            (0 < errno \<longrightarrow> (r = 0 \<longleftrightarrow> ret = 0) \<and> (r < 0 \<longleftrightarrow> ret \<noteq> 0))"
    unfolding res by auto
  with wr res show ?thesis by blast
qed

theorem post_chunk_returns_negated_errno_witness:
  "post_chunk hw_ok dev_posting chunk_a =
     Inr (0, dev_posting\<lparr>srq := Live (srq_empty\<lparr>srq_posts := [(recv_wr_of chunk_a, 0)]\<rparr>)\<rparr>) \<and>
   post_chunk hw_room_for_one (dev_posting\<lparr>srq := Live srq_ready\<rparr>) chunk_b =
     Inr (- 12, dev_posting\<lparr>srq := Live (srq_ready\<lparr>srq_posts :=
                    srq_posts srq_ready @ [(recv_wr_of chunk_b, 12)]\<rparr>)\<rparr>)"
proof -
  have q: "srq dev_posting = Live srq_empty" by (simp add: dev_posting_def)
  have a: "ibv_post_srq_recv hw_ok srq_empty (recv_wr_of chunk_a) = (0, 0)"
    by (simp add: hw_ok_def)
  have q2: "srq (dev_posting\<lparr>srq := Live srq_ready\<rparr>) = Live srq_ready" by simp
  have b: "ibv_post_srq_recv hw_room_for_one srq_ready (recv_wr_of chunk_b) = (12, 12)"
    by (simp add: hw_room_for_one_def hw_ok_def srq_ready_def)
  note x = post_chunk_returns_negated_errno [OF q a, THEN conjunct2, THEN conjunct1]
  note y = post_chunk_returns_negated_errno [OF q2 b, THEN conjunct2, THEN conjunct1]
  have "srq_posts srq_empty = []" by (simp add: srq_empty_def)
  with x y show ?thesis by simp
qed

subsection \<open>Polling and re-arming one device\<close>

text \<open>
  C8.  On a device that is not initialized, \<^verbatim>\<open>poll_tx_cq\<close> and \<^verbatim>\<open>poll_rx_cq\<close> return 0
  and \<^verbatim>\<open>rearm_cqs\<close> returns, each leaving the device, and so the history of both
  completion queues, as it was.  On an initialized device \<^verbatim>\<open>poll_tx_cq\<close> polls the
  transmit queue once and \<^verbatim>\<open>poll_rx_cq\<close> the receive queue once and returns what that
  poll reports; \<^verbatim>\<open>rearm_cqs\<close> re-arms the transmit queue, then the receive queue, and
  the assertion fails when either re-arm returns nonzero.
\<close>

theorem device_poll_and_rearm:
  "(\<not> initialized d \<longrightarrow>
      poll_tx_cq h d n = Inr (0, d) \<and> poll_rx_cq h d n = Inr (0, d) \<and> rearm_cqs h d = Inr d) \<and>
   (initialized d \<and> tx_cq d = Live t \<and> rx_cq d = Live r \<longrightarrow>
      poll_tx_cq h d n =
        Inr (poll_cq h t n, d\<lparr>tx_cq := Live (t\<lparr>cq_polls := cq_polls t @ [(n, poll_cq h t n)]\<rparr>)\<rparr>) \<and>
      poll_rx_cq h d n =
        Inr (poll_cq h r n, d\<lparr>rx_cq := Live (r\<lparr>cq_polls := cq_polls r @ [(n, poll_cq h r n)]\<rparr>)\<rparr>) \<and>
      (rearm_notify h t = 0 \<and> rearm_notify h r = 0 \<longrightarrow>
         rearm_cqs h d =
           Inr (d\<lparr>tx_cq := Live (t\<lparr>cq_rearms := cq_rearms t @ [0]\<rparr>),
                   rx_cq := Live (r\<lparr>cq_rearms := cq_rearms r @ [0]\<rparr>)\<rparr>)) \<and>
      (rearm_notify h t \<noteq> 0 \<or> rearm_notify h r \<noteq> 0 \<longrightarrow>
         rearm_cqs h d = Inl AssertFailed))"
proof (intro conjI impI)
  assume n: "\<not> initialized d"
  from n show "poll_tx_cq h d n = Inr (0, d)" by (simp add: poll_tx_cq_def)
  from n show "poll_rx_cq h d n = Inr (0, d)" by (simp add: poll_rx_cq_def)
  from n show "rearm_cqs h d = Inr d" by (simp add: rearm_cqs_def)
next
  assume i: "initialized d \<and> tx_cq d = Live t \<and> rx_cq d = Live r"
  then show "poll_tx_cq h d n =
        Inr (poll_cq h t n, d\<lparr>tx_cq := Live (t\<lparr>cq_polls := cq_polls t @ [(n, poll_cq h t n)]\<rparr>)\<rparr>)"
    by (simp add: poll_tx_cq_def polled_def)
  from i show "poll_rx_cq h d n =
        Inr (poll_cq h r n, d\<lparr>rx_cq := Live (r\<lparr>cq_polls := cq_polls r @ [(n, poll_cq h r n)]\<rparr>)\<rparr>)"
    by (simp add: poll_rx_cq_def polled_def)
  {
    assume "rearm_notify h t = 0 \<and> rearm_notify h r = 0"
    with i show "rearm_cqs h d =
           Inr (d\<lparr>tx_cq := Live (t\<lparr>cq_rearms := cq_rearms t @ [0]\<rparr>),
                   rx_cq := Live (r\<lparr>cq_rearms := cq_rearms r @ [0]\<rparr>)\<rparr>)"
      by (simp add: rearm_cqs_def rearmed_def Let_def)
  }
  {
    assume "rearm_notify h t \<noteq> 0 \<or> rearm_notify h r \<noteq> 0"
    with i show "rearm_cqs h d = Inl AssertFailed"
      by (auto simp: rearm_cqs_def rearmed_def Let_def)
  }
qed

theorem device_poll_and_rearm_witness:
  "\<not> initialized dev_fresh \<and>
   poll_tx_cq hw_three dev_fresh 10 = Inr (0, dev_fresh) \<and>
   poll_rx_cq hw_three dev_fresh 10 = Inr (0, dev_fresh) \<and>
   rearm_cqs hw_rearm_fails dev_fresh = Inr dev_fresh \<and>
   initialized dev_ready \<and>
   poll_tx_cq hw_three dev_ready 10 =
     Inr (3, dev_ready\<lparr>tx_cq := Live ((cq_new ''mlx5_0'' (Live ()))\<lparr>cq_polls := [(10, 3)]\<rparr>)\<rparr>) \<and>
   poll_rx_cq hw_three dev_ready 10 =
     Inr (3, dev_ready\<lparr>rx_cq := Live ((cq_new ''mlx5_0'' (Live ()))\<lparr>cq_polls := [(10, 3)]\<rparr>)\<rparr>) \<and>
   rearm_cqs hw_ok dev_ready =
     Inr (dev_ready\<lparr>tx_cq := Live ((cq_new ''mlx5_0'' (Live ()))\<lparr>cq_rearms := [0]\<rparr>),
                    rx_cq := Live ((cq_new ''mlx5_0'' (Live ()))\<lparr>cq_rearms := [0]\<rparr>)\<rparr>) \<and>
   rearm_cqs hw_rearm_fails dev_ready = Inl AssertFailed"
proof -
  have n: "\<not> initialized dev_fresh" by (simp add: dev_fresh_def)
  have i: "initialized dev_ready \<and> tx_cq dev_ready = Live (cq_new ''mlx5_0'' (Live ())) \<and>
           rx_cq dev_ready = Live (cq_new ''mlx5_0'' (Live ()))"
    by (simp add: dev_ready_def)
  have p: "poll_cq hw_three (cq_new ''mlx5_0'' (Live ())) 10 = 3"
    by (simp add: hw_three_def hw_ok_def)
  have r0: "rearm_notify hw_ok (cq_new ''mlx5_0'' (Live ())) = 0"
    by (simp add: hw_ok_def)
  have r1: "rearm_notify hw_rearm_fails (cq_new ''mlx5_0'' (Live ())) \<noteq> 0"
    by (simp add: hw_rearm_fails_def hw_ok_def)
  note a = device_poll_and_rearm [where d = dev_fresh and h = hw_three and n = 10, THEN conjunct1, rule_format, OF n]
  note b = device_poll_and_rearm [where d = dev_fresh and h = hw_rearm_fails and n = 10, THEN conjunct1, rule_format, OF n]
  note c = device_poll_and_rearm [where d = dev_ready and t = "cq_new ''mlx5_0'' (Live ())" and r = "cq_new ''mlx5_0'' (Live ())"
      and h = hw_three and n = 10,
      THEN conjunct2, rule_format, OF i]
  note e = device_poll_and_rearm [where d = dev_ready and t = "cq_new ''mlx5_0'' (Live ())" and r = "cq_new ''mlx5_0'' (Live ())"
      and h = hw_ok and n = 10,
      THEN conjunct2, rule_format, OF i]
  note f = device_poll_and_rearm [where d = dev_ready and t = "cq_new ''mlx5_0'' (Live ())" and r = "cq_new ''mlx5_0'' (Live ())"
      and h = hw_rearm_fails and n = 10,
      THEN conjunct2, rule_format, OF i]
  from a b c e f n i p r0 r1 show ?thesis
    by (simp add: cq_new_def)
qed

subsection \<open>The polling loop of DeviceList\<close>

lemma c_rem_nonneg: "0 \<le> a \<Longrightarrow> 0 < b \<Longrightarrow> c_rem a b = a mod b"
  by (simp add: c_rem_def)

lemma sint_succ:
  fixes c :: c_int
  assumes "sint c < 2147483647"
  shows "sint (c + 1) = sint c + 1"
proof -
  have lo: "- (2 ^ (LENGTH(32) - 1)) \<le> sint c" by (rule sint_ge)
  have "c + 1 = word_of_int (sint c + 1)" by simp
  then have "sint (c + 1) = signed_take_bit (LENGTH(32) - 1) (sint c + 1)"
    by (simp only: sint_sbintrunc')
  also have "\<dots> = sint c + 1"
    using lo assms by (intro signed_take_bit_int_eq_self) simp_all
  finally show ?thesis .
qed

lemma cursor_succ:
  assumes "cursor dl < 2147483647"
  shows "cursor (dl\<lparr>last_poll_dev := last_poll_dev dl + 1, devices := ds\<rparr>) = cursor dl + 1"
  using assms by (simp add: cursor_def sint_succ)

lemma rotation_Suc:
  "rotation c n (Suc len) = nat ((c + 1) mod int n) # rotation (c + 1) n len"
proof -
  have "[0..<Suc len] = 0 # map Suc [0..<len]"
    by (simp add: upt_conv_Cons map_Suc_upt del: upt_Suc)
  then have "rotation c n (Suc len) =
      map (\<lambda>j. nat ((c + 1 + int j) mod int n)) (0 # map Suc [0..<len])"
    by (simp only: rotation_def)
  also have "\<dots> = nat ((c + 1) mod int n) #
      map (\<lambda>j. nat ((c + 1 + 1 + int j) mod int n)) [0..<len]"
    by (simp add: comp_def algebra_simps)
  finally show ?thesis by (simp add: rotation_def)
qed

lemma rotation_0: "rotation c n 0 = []"
  by (simp add: rotation_def)

lemma length_rotation: "length (rotation c n len) = len"
  by (simp add: rotation_def)

lemma rotation_add:
  "rotation c n (a + b) = rotation c n a @ rotation (c + int a) n b"
proof (induction a arbitrary: c)
  case 0
  then show ?case by (simp add: rotation_0)
next
  case (Suc a)
  have "rotation c n (Suc a + b) = nat ((c + 1) mod int n) # rotation (c + 1) n (a + b)"
    using rotation_Suc [of c n "a + b"] by simp
  also have "\<dots> = nat ((c + 1) mod int n) # rotation (c + 1) n a @ rotation (c + 1 + int a) n b"
    by (simp add: Suc.IH)
  also have "\<dots> = rotation c n (Suc a) @ rotation (c + int (Suc a)) n b"
    by (simp add: rotation_Suc algebra_simps)
  finally show ?case .
qed

lemma rotation_nth:
  "j < len \<Longrightarrow> rotation c n len ! j = nat ((c + 1 + int j) mod int n)"
  by (simp add: rotation_def)

text \<open>
  One step of the loop, with the index written out, for a cursor that may be
  incremented: not below \<open>- 1\<close> and below the largest \<^verbatim>\<open>int\<close>.
\<close>

lemma poll_devices_step:
  assumes "devices dl \<noteq> []" and "- 1 \<le> cursor dl" and "cursor dl < 2147483647"
  defines "i \<equiv> nat ((cursor dl + 1) mod num dl)"
  shows "i < length (devices dl)"
    and "poll_devices pcq (Suc k) dl n d =
      (case pcq (devices dl ! i) of
         Inl f \<Rightarrow> Inl f
       | Inr (n', dev') \<Rightarrow>
           let dl2 = dl\<lparr>last_poll_dev := last_poll_dev dl + 1,
                        devices := (devices dl)[i := dev']\<rparr>
           in if n' \<noteq> 0 then Inr (n', Some i, [(i, n')], dl2)
              else case poll_devices pcq k dl2 n' (Some i) of
                     Inl f \<Rightarrow> Inl f
                   | Inr (m, d', tr, dl3) \<Rightarrow> Inr (m, d', (i, n') # tr, dl3))"
proof -
  from assms(1) have pos: "0 < num dl" by (simp add: num_def)
  have s: "sint (last_poll_dev dl + 1) = cursor dl + 1"
    using assms(3) by (simp add: cursor_def sint_succ)
  from assms(2) have nn: "0 \<le> cursor dl + 1" by simp
  have rem: "c_rem (sint (last_poll_dev dl + 1)) (num dl) = (cursor dl + 1) mod num dl"
    unfolding s using nn pos by (rule c_rem_nonneg)
  have lo: "0 \<le> (cursor dl + 1) mod num dl" using pos by simp
  have hi: "(cursor dl + 1) mod num dl < num dl" using pos by simp
  from hi lo show "i < length (devices dl)"
    unfolding i_def num_def by linarith
  from lo hi show "poll_devices pcq (Suc k) dl n d =
      (case pcq (devices dl ! i) of
         Inl f \<Rightarrow> Inl f
       | Inr (n', dev') \<Rightarrow>
           let dl2 = dl\<lparr>last_poll_dev := last_poll_dev dl + 1,
                        devices := (devices dl)[i := dev']\<rparr>
           in if n' \<noteq> 0 then Inr (n', Some i, [(i, n')], dl2)
              else case poll_devices pcq k dl2 n' (Some i) of
                     Inl f \<Rightarrow> Inl f
                   | Inr (m, d', tr, dl3) \<Rightarrow> Inr (m, d', (i, n') # tr, dl3))"
    by (simp add: rem i_def Let_def split: sum.splits prod.splits)
qed

text \<open>What a run of the loop that returns has done.\<close>

lemma poll_devices_trace:
  "poll_devices pcq k dl n d = Inr (m, d', tr, dl') \<Longrightarrow>
   devices dl \<noteq> [] \<Longrightarrow> - 1 \<le> cursor dl \<Longrightarrow> cursor dl + int k \<le> 2147483647 \<Longrightarrow>
     length tr \<le> k \<and>
     length (devices dl') = length (devices dl) \<and>
     cursor dl' = cursor dl + int (length tr) \<and>
     map fst tr = rotation (cursor dl) (length (devices dl)) (length tr) \<and>
     (\<forall>x \<in> set (butlast tr). snd x = 0) \<and>
     (tr = [] \<longrightarrow> m = n \<and> d' = d \<and> k = 0) \<and>
     (tr \<noteq> [] \<longrightarrow> m = snd (last tr) \<and> d' = Some (fst (last tr))) \<and>
     (m \<noteq> 0 \<or> length tr = k)"
proof (induction k arbitrary: dl n d m d' tr dl')
  case 0
  then show ?case by (simp add: rotation_0)
next
  case (Suc k)
  from Suc.prems(4) have top: "cursor dl < 2147483647" by simp
  define i where "i = nat ((cursor dl + 1) mod num dl)"
  have i: "i < length (devices dl)"
    using poll_devices_step(1) [OF Suc.prems(2,3) top] by (simp add: i_def)
  note step = poll_devices_step(2) [OF Suc.prems(2,3) top, of pcq k n d, folded i_def]
  from Suc.prems(1) step obtain n' dev' where p: "pcq (devices dl ! i) = Inr (n', dev')"
    by (cases "pcq (devices dl ! i)") auto
  define dl2 where
    "dl2 = dl\<lparr>last_poll_dev := last_poll_dev dl + 1, devices := (devices dl)[i := dev']\<rparr>"
  have c2: "cursor dl2 = cursor dl + 1" unfolding dl2_def using top by (rule cursor_succ)
  have rot1: "rotation (cursor dl) (length (devices dl)) (Suc len) =
      i # rotation (cursor dl + 1) (length (devices dl)) len" for len
    by (simp add: rotation_Suc i_def num_def)
  show ?case
  proof (cases "n' = 0")
    case False
    with Suc.prems(1) step p have
      "m = n'" "d' = Some i" "tr = [(i, n')]" "dl' = dl2"
      by (simp_all add: dl2_def Let_def)
    with False c2 show ?thesis
      by (simp add: dl2_def rot1 rotation_0)
  next
    case True
    with Suc.prems(1) step p obtain tr' where
      rec: "poll_devices pcq k dl2 0 (Some i) = Inr (m, d', tr', dl')" and tr: "tr = (i, 0) # tr'"
      by (auto simp: dl2_def Let_def split: sum.splits)
    have ne: "devices dl2 \<noteq> []" using Suc.prems(2) by (simp add: dl2_def)
    have cur: "- 1 \<le> cursor dl2" using Suc.prems(3) by (simp add: c2)
    have top2: "cursor dl2 + int k \<le> 2147483647" using Suc.prems(4) by (simp add: c2)
    note ih = Suc.IH [OF rec ne cur top2]
    have len2: "length (devices dl2) = length (devices dl)" by (simp add: dl2_def)
    from ih have a1: "length tr \<le> Suc k" by (simp add: tr)
    from ih have a2: "length (devices dl') = length (devices dl)" by (simp add: len2)
    from ih have a3: "cursor dl' = cursor dl + int (length tr)"
      by (simp add: tr c2)
    from ih have "map fst tr' = rotation (cursor dl + 1) (length (devices dl)) (length tr')"
      by (simp add: len2 c2)
    then have a4: "map fst tr = rotation (cursor dl) (length (devices dl)) (length tr)"
      by (simp add: tr rot1)
    from ih have z: "\<forall>x \<in> set (butlast tr'). snd x = 0" by blast
    have a5: "\<forall>x \<in> set (butlast tr). snd x = 0"
      using z by (cases "tr' = []") (auto simp: tr)
    have a7: "m = snd (last tr) \<and> d' = Some (fst (last tr))"
    proof (cases "tr' = []")
      case True
      with ih have "m = 0" "d' = Some i" by simp_all
      with True show ?thesis by (simp add: tr)
    next
      case False
      with ih have "m = snd (last tr')" "d' = Some (fst (last tr'))" by simp_all
      with False show ?thesis by (simp add: tr)
    qed
    from ih have a8: "m \<noteq> 0 \<or> length tr = Suc k" by (auto simp: tr)
    from a1 a2 a3 a4 a5 a7 a8 show ?thesis by (simp add: tr)
  qed
qed

text \<open>
  A device is visited at most once in a call, so each value in the trace is what the
  device's method answers in the state the call found it in.
\<close>

lemma mod_shift_neq:
  fixes a e n :: int
  assumes "0 < e" and "e < n"
  shows "(a + e) mod n \<noteq> a mod n"
proof
  assume "(a + e) mod n = a mod n"
  then have "n dvd (a + e) - a" by (simp add: mod_eq_dvd_iff)
  then have "n dvd e" by simp
  with assms show False by (simp add: zdvd_not_zless)
qed

lemma rotation_later_neq:
  assumes "j < len" and "len < n" and "- 1 \<le> c"
  shows "rotation (c + 1) n len ! j \<noteq> nat ((c + 1) mod int n)"
proof -
  have n: "0 < int n" using assms by simp
  have "(c + 1 + (1 + int j)) mod int n \<noteq> (c + 1) mod int n"
    using assms by (intro mod_shift_neq) simp_all
  moreover have "0 \<le> (c + 1 + (1 + int j)) mod int n" "0 \<le> (c + 1) mod int n"
    using n by simp_all
  ultimately have "nat ((c + 1 + 1 + int j) mod int n) \<noteq> nat ((c + 1) mod int n)"
    by (simp add: algebra_simps nat_eq_iff)
  with assms(1) show ?thesis by (simp add: rotation_nth)
qed

lemma poll_devices_values:
  "poll_devices pcq k dl n d = Inr (m, d', tr, dl') \<Longrightarrow>
   devices dl \<noteq> [] \<Longrightarrow> - 1 \<le> cursor dl \<Longrightarrow> cursor dl + int k \<le> 2147483647 \<Longrightarrow>
   k \<le> length (devices dl) \<Longrightarrow>
     (\<forall>j < length tr. \<exists>dev'. pcq (devices dl ! fst (tr ! j)) = Inr (snd (tr ! j), dev') \<and>
                              devices dl' ! fst (tr ! j) = dev') \<and>
     (\<forall>x < length (devices dl). x \<notin> fst ` set tr \<longrightarrow> devices dl' ! x = devices dl ! x)"
proof (induction k arbitrary: dl n d m d' tr dl')
  case 0
  then show ?case by simp
next
  case (Suc k)
  from Suc.prems(4) have top: "cursor dl < 2147483647" by simp
  define i where "i = nat ((cursor dl + 1) mod num dl)"
  have i: "i < length (devices dl)"
    using poll_devices_step(1) [OF Suc.prems(2,3) top] by (simp add: i_def)
  note step = poll_devices_step(2) [OF Suc.prems(2,3) top, of pcq k n d, folded i_def]
  from Suc.prems(1) step obtain n' dev' where p: "pcq (devices dl ! i) = Inr (n', dev')"
    by (cases "pcq (devices dl ! i)") auto
  define dl2 where
    "dl2 = dl\<lparr>last_poll_dev := last_poll_dev dl + 1, devices := (devices dl)[i := dev']\<rparr>"
  have c2: "cursor dl2 = cursor dl + 1" unfolding dl2_def using top by (rule cursor_succ)
  have upd_i: "devices dl2 ! i = dev'" using i by (simp add: dl2_def)
  have upd_other: "x \<noteq> i \<Longrightarrow> devices dl2 ! x = devices dl ! x" for x
    by (simp add: dl2_def)
  have len2: "length (devices dl2) = length (devices dl)" by (simp add: dl2_def)
  show ?case
  proof (cases "n' = 0")
    case False
    with Suc.prems(1) step p have r: "tr = [(i, n')]" "dl' = dl2"
      by (simp_all add: dl2_def Let_def)
    show ?thesis
    proof (intro conjI allI impI)
      fix j assume "j < length tr"
      with r have "j = 0" by simp
      with r p upd_i show "\<exists>dev'. pcq (devices dl ! fst (tr ! j)) = Inr (snd (tr ! j), dev') \<and>
          devices dl' ! fst (tr ! j) = dev'"
        by simp
    next
      fix x assume "x < length (devices dl)" "x \<notin> fst ` set tr"
      with r show "devices dl' ! x = devices dl ! x" by (simp add: upd_other)
    qed
  next
    case True
    with Suc.prems(1) step p obtain tr' where
      rec: "poll_devices pcq k dl2 0 (Some i) = Inr (m, d', tr', dl')" and tr: "tr = (i, 0) # tr'"
      by (auto simp: dl2_def Let_def split: sum.splits)
    have ne: "devices dl2 \<noteq> []" using Suc.prems(2) by (simp add: dl2_def)
    have cur: "- 1 \<le> cursor dl2" using Suc.prems(3) by (simp add: c2)
    have top2: "cursor dl2 + int k \<le> 2147483647" using Suc.prems(4) by (simp add: c2)
    have k: "k \<le> length (devices dl2)" using Suc.prems(5) by (simp add: len2)
    note ih = Suc.IH [OF rec ne cur top2 k]
    note shape = poll_devices_trace [OF rec ne cur top2]
    have lt: "length tr' < length (devices dl)"
      using shape Suc.prems(5) by simp
    have fsts: "map fst tr' = rotation (cursor dl + 1) (length (devices dl)) (length tr')"
      using shape by (simp add: c2 len2)
    have later: "fst (tr' ! j) \<noteq> i" if "j < length tr'" for j
    proof -
      from that have "fst (tr' ! j) = map fst tr' ! j" by simp
      also have "\<dots> = rotation (cursor dl + 1) (length (devices dl)) (length tr') ! j"
        by (simp only: fsts)
      also have "\<dots> \<noteq> nat ((cursor dl + 1) mod int (length (devices dl)))"
        using that lt Suc.prems(3) by (rule rotation_later_neq)
      finally show ?thesis by (simp add: i_def num_def)
    qed
    have notin: "i \<notin> fst ` set tr'"
    proof
      assume "i \<in> fst ` set tr'"
      then obtain x where "x \<in> set tr'" "fst x = i" by auto
      then obtain j where "j < length tr'" "tr' ! j = x" by (auto simp: in_set_conv_nth)
      with later [of j] \<open>fst x = i\<close> show False by simp
    qed
    have keep_i: "devices dl' ! i = dev'"
      using ih i notin upd_i by (simp add: len2)
    show ?thesis
    proof (intro conjI allI impI)
      fix j assume j: "j < length tr"
      show "\<exists>dev'. pcq (devices dl ! fst (tr ! j)) = Inr (snd (tr ! j), dev') \<and>
          devices dl' ! fst (tr ! j) = dev'"
      proof (cases j)
        case 0
        with p True keep_i show ?thesis by (simp add: tr)
      next
        case (Suc j')
        with j have j': "j' < length tr'" by (simp add: tr)
        with ih obtain dev'' where
          "pcq (devices dl2 ! fst (tr' ! j')) = Inr (snd (tr' ! j'), dev'')"
          "devices dl' ! fst (tr' ! j') = dev''"
          by blast
        moreover have "devices dl2 ! fst (tr' ! j') = devices dl ! fst (tr' ! j')"
          using later [OF j'] by (rule upd_other)
        ultimately show ?thesis by (simp add: tr Suc)
      qed
    next
      fix x assume x: "x < length (devices dl)" "x \<notin> fst ` set tr"
      then have "x \<noteq> i" "x \<notin> fst ` set tr'" by (auto simp: tr)
      with ih x(1) have "devices dl' ! x = devices dl2 ! x" by (simp add: len2)
      with \<open>x \<noteq> i\<close> show "devices dl' ! x = devices dl ! x" by (simp add: upd_other)
    qed
  qed
qed

text \<open>The loop returns when the method it calls returns on every device.\<close>

lemma poll_devices_total:
  assumes pcq: "\<And>dev. P dev \<Longrightarrow> \<exists>r dev'. pcq dev = Inr (r, dev') \<and> P dev'"
  shows "list_all P (devices dl) \<Longrightarrow> devices dl \<noteq> [] \<Longrightarrow> - 1 \<le> cursor dl \<Longrightarrow>
     cursor dl + int k \<le> 2147483647 \<Longrightarrow>
     \<exists>m d' tr dl'. poll_devices pcq k dl n d = Inr (m, d', tr, dl') \<and> list_all P (devices dl')"
proof (induction k arbitrary: dl n d)
  case 0
  then show ?case by simp
next
  case (Suc k)
  from Suc.prems(4) have top: "cursor dl < 2147483647" by simp
  define i where "i = nat ((cursor dl + 1) mod num dl)"
  have i: "i < length (devices dl)"
    using poll_devices_step(1) [OF Suc.prems(2,3) top] by (simp add: i_def)
  note step = poll_devices_step(2) [OF Suc.prems(2,3) top, of pcq k n d, folded i_def]
  from Suc.prems(1) i have "P (devices dl ! i)" by (simp add: list_all_length)
  from pcq [OF this] obtain n' dev' where p: "pcq (devices dl ! i) = Inr (n', dev')" and P': "P dev'"
    by blast
  define dl2 where
    "dl2 = dl\<lparr>last_poll_dev := last_poll_dev dl + 1, devices := (devices dl)[i := dev']\<rparr>"
  have c2: "cursor dl2 = cursor dl + 1" unfolding dl2_def using top by (rule cursor_succ)
  have all2: "list_all P (devices dl2)"
    using Suc.prems(1) P' i by (auto simp: dl2_def list_all_length nth_list_update)
  show ?case
  proof (cases "n' = 0")
    case False
    with step p have "poll_devices pcq (Suc k) dl n d = Inr (n', Some i, [(i, n')], dl2)"
      by (simp add: dl2_def Let_def)
    with all2 show ?thesis by blast
  next
    case True
    have ne: "devices dl2 \<noteq> []" using Suc.prems(2) by (simp add: dl2_def)
    have cur: "- 1 \<le> cursor dl2" using Suc.prems(3) by (simp add: c2)
    have top2: "cursor dl2 + int k \<le> 2147483647" using Suc.prems(4) by (simp add: c2)
    from Suc.IH [OF all2 ne cur top2, of 0 "Some i"] obtain m d' tr dl' where
      rec: "poll_devices pcq k dl2 0 (Some i) = Inr (m, d', tr, dl')" and all': "list_all P (devices dl')"
      by blast
    with step p True have "poll_devices pcq (Suc k) dl n d = Inr (m, d', (i, 0) # tr, dl')"
      by (simp add: dl2_def Let_def)
    with all' show ?thesis by blast
  qed
qed

lemma device_poll_ok:
  assumes "device_ok dev"
  shows "\<exists>r dev'. device_poll h call dev = Inr (r, dev') \<and> device_ok dev'"
proof (cases "initialized dev")
  case False
  then show ?thesis
    by (cases call) (simp_all add: poll_tx_cq_def poll_rx_cq_def device_ok_def)
next
  case True
  with assms obtain t r where "tx_cq dev = Live t" "rx_cq dev = Live r"
    by (cases "tx_cq dev"; cases "rx_cq dev") (auto simp: device_ok_def)
  with True show ?thesis
    by (cases call) (simp_all add: poll_tx_cq_def poll_rx_cq_def device_ok_def)
qed

lemma poll_one_loop:
  "poll_one h call dl d = poll_devices (device_poll h call) (length (devices dl)) dl 0 d"
proof (cases call)
  case (PollTx n)
  have "(\<lambda>dev. poll_tx_cq h dev n) = device_poll h (PollTx n)" by (rule ext) simp
  with PollTx show ?thesis by (simp add: poll_tx_def)
next
  case (PollRx n)
  have "(\<lambda>dev. poll_rx_cq h dev n) = device_poll h (PollRx n)" by (rule ext) simp
  with PollRx show ?thesis by (simp add: poll_rx_def)
qed

lemma poll_one_zero:
  assumes "poll_one h call dl d = Inr (0, d', tr, dl')"
    and "devices dl \<noteq> []" and "- 1 \<le> cursor dl"
    and "cursor dl + int (length (devices dl)) \<le> 2147483647"
  shows "length tr = length (devices dl)"
    and "map fst tr = rotation (cursor dl) (length (devices dl)) (length (devices dl))"
    and "cursor dl' = cursor dl + int (length (devices dl))"
    and "length (devices dl') = length (devices dl)"
    and "\<forall>x \<in> set tr. snd x = 0"
proof -
  note t = poll_devices_trace [OF assms(1) [unfolded poll_one_loop] assms(2,3,4)]
  from t show len: "length tr = length (devices dl)" by simp
  from t len show "map fst tr = rotation (cursor dl) (length (devices dl)) (length (devices dl))"
    by simp
  from t len show "cursor dl' = cursor dl + int (length (devices dl))" by simp
  from t show "length (devices dl') = length (devices dl)" by simp
  from len assms(2) have ne: "tr \<noteq> []" by auto
  with t have "snd (last tr) = 0" by simp
  moreover from t have "\<forall>x \<in> set (butlast tr). snd x = 0" by blast
  moreover from ne have "set tr = insert (last tr) (set (butlast tr))"
    by (metis append_butlast_last_id list.set(1,2) set_append Un_insert_right sup_bot.right_neutral)
  ultimately show "\<forall>x \<in> set tr. snd x = 0" by simp
qed

lemma poll_calls_zero:
  "poll_calls h calls dl d = Inr (ns, tr, dl') \<Longrightarrow>
   devices dl \<noteq> [] \<Longrightarrow> - 1 \<le> cursor dl \<Longrightarrow>
   cursor dl + int (length calls * length (devices dl)) \<le> 2147483647 \<Longrightarrow>
   \<forall>n \<in> set ns. n = 0 \<Longrightarrow>
     length ns = length calls \<and>
     length (devices dl') = length (devices dl) \<and>
     map fst tr = rotation (cursor dl) (length (devices dl))
                    (length calls * length (devices dl)) \<and>
     cursor dl' = cursor dl + int (length calls * length (devices dl)) \<and>
     (\<forall>x \<in> set tr. snd x = 0)"
proof (induction calls arbitrary: dl d ns tr dl')
  case Nil
  then show ?case by (simp add: rotation_0)
next
  case (Cons call calls)
  from Cons.prems(1) obtain n d1 tr1 dl1 ns' tr' where
    one: "poll_one h call dl d = Inr (n, d1, tr1, dl1)" and
    rest: "poll_calls h calls dl1 d1 = Inr (ns', tr', dl')" and
    ns: "ns = n # ns'" and tr: "tr = tr1 @ tr'"
    by (auto split: sum.splits)
  from Cons.prems(5) ns have n0: "n = 0" and ns0: "\<forall>n \<in> set ns'. n = 0" by simp_all
  let ?N = "length (devices dl)"
  have nn: "0 \<le> int (length calls) * int ?N" by simp
  have "int (length (call # calls) * ?N) = int ?N + int (length calls) * int ?N"
    by (simp add: algebra_simps)
  with Cons.prems(4) nn have top1: "cursor dl + int ?N \<le> 2147483647"
    by linarith
  note z = poll_one_zero [OF one [unfolded n0] Cons.prems(2,3) top1]
  have ne1: "devices dl1 \<noteq> []" using z(4) Cons.prems(2) by auto
  have cur1: "- 1 \<le> cursor dl1" using z(3) Cons.prems(3) by simp
  have toprest: "cursor dl1 + int (length calls * length (devices dl1)) \<le> 2147483647"
    using Cons.prems(4) z(3,4) by (simp add: algebra_simps)
  note ih = Cons.IH [OF rest ne1 cur1 toprest ns0]
  have "map fst tr = rotation (cursor dl) ?N ?N @
      rotation (cursor dl + int ?N) ?N (length calls * ?N)"
    using ih z by (simp add: tr)
  also have "\<dots> = rotation (cursor dl) ?N (?N + length calls * ?N)"
    by (simp add: rotation_add)
  finally have a: "map fst tr = rotation (cursor dl) ?N (length (call # calls) * ?N)"
    by simp
  have b: "cursor dl' = cursor dl + int (length (call # calls) * ?N)"
    using ih z by (simp add: algebra_simps)
  have c: "\<forall>x \<in> set tr. snd x = 0" using ih z(5) by (auto simp: tr)
  from a b c ih z ns show ?case by simp
qed

lemma butlast_zero_nth:
  assumes "\<forall>x \<in> set (butlast tr). snd x = 0" and "j < length tr" and "snd (tr ! j) \<noteq> 0"
  shows "Suc j = length tr"
proof (rule ccontr)
  assume "Suc j \<noteq> length tr"
  with assms(2) have j: "j < length (butlast tr)" by simp
  then have "butlast tr ! j \<in> set (butlast tr)" by (rule nth_mem)
  moreover from j have "butlast tr ! j = tr ! j" by (simp add: nth_butlast)
  ultimately show False using assms(1,3) by auto
qed


lemma rotation_distinct:
  assumes "len \<le> n" and "0 < n"
  shows "distinct (rotation c n len)"
proof -
  have "rotation c n len ! i \<noteq> rotation c n len ! j" if "i < j" "j < len" for i j
  proof -
    have n: "0 < int n" using assms(2) by simp
    have eq: "c + 1 + int i + int (j - i) = c + 1 + int j" using that by simp
    have "(c + 1 + int i + int (j - i)) mod int n \<noteq> (c + 1 + int i) mod int n"
      using that assms(1) by (intro mod_shift_neq) simp_all
    then have ne: "(c + 1 + int j) mod int n \<noteq> (c + 1 + int i) mod int n"
      unfolding eq .
    have "0 \<le> (c + 1 + int j) mod int n" "0 \<le> (c + 1 + int i) mod int n"
      using n by simp_all
    with ne have "nat ((c + 1 + int i) mod int n) \<noteq> nat ((c + 1 + int j) mod int n)"
      by (simp add: nat_eq_iff)
    with that show ?thesis by (simp add: rotation_nth)
  qed
  then have "\<And>i j. i < length (rotation c n len) \<Longrightarrow> j < length (rotation c n len) \<Longrightarrow>
      i \<noteq> j \<Longrightarrow> rotation c n len ! i \<noteq> rotation c n len ! j"
    by (metis length_rotation linorder_neqE_nat)
  then show ?thesis by (simp add: distinct_conv_nth)
qed

lemma poll_calls_total:
  "list_all device_ok (devices dl) \<Longrightarrow> devices dl \<noteq> [] \<Longrightarrow> - 1 \<le> cursor dl \<Longrightarrow>
   cursor dl + int (length calls * length (devices dl)) \<le> 2147483647 \<Longrightarrow>
     \<exists>ns tr dl'. poll_calls h calls dl d = Inr (ns, tr, dl') \<and> list_all device_ok (devices dl')"
proof (induction calls arbitrary: dl d)
  case Nil
  then show ?case by simp
next
  case (Cons call calls)
  let ?N = "length (devices dl)"
  have nn: "0 \<le> int (length calls) * int ?N" by simp
  have split: "int (length (call # calls) * ?N) = int ?N + int (length calls) * int ?N"
    by (simp add: algebra_simps)
  with Cons.prems(4) nn have top1: "cursor dl + int ?N \<le> 2147483647" by linarith
  from poll_devices_total [of device_ok "device_poll h call", OF device_poll_ok
      Cons.prems(1,2,3) top1]
  obtain n d1 tr1 dl1 where
    one: "poll_one h call dl d = Inr (n, d1, tr1, dl1)" and ok1: "list_all device_ok (devices dl1)"
    unfolding poll_one_loop by blast
  note t = poll_devices_trace [OF one [unfolded poll_one_loop] Cons.prems(2,3) top1]
  have len1: "length (devices dl1) = ?N" using t by simp
  have ne1: "devices dl1 \<noteq> []" using len1 Cons.prems(2) by auto
  have cur1: "- 1 \<le> cursor dl1" using t Cons.prems(3) by simp
  have "cursor dl1 \<le> cursor dl + int ?N" using t by simp
  with Cons.prems(4) split
  have top2: "cursor dl1 + int (length calls * length (devices dl1)) \<le> 2147483647"
    by (simp add: len1)
  from Cons.IH [OF ok1 ne1 cur1 top2, of d1] obtain ns tr dl' where
    "poll_calls h calls dl1 d1 = Inr (ns, tr, dl')" "list_all device_ok (devices dl')"
    by blast
  with one show ?case by simp
qed

lemmas list_defs =
  answer_def outcome_def outcomes_def devices_after_def cursor_def two_devices_def
  three_devices_at_max_def two_devices_below_def one_without_queue_def ready_then_fresh_def
  dev_fresh_def dev_ready_def dev_ready1_def cq_new_def
  hw_error_first_def hw_ok_def poll_tx_def poll_rx_def poll_tx_cq_def poll_rx_cq_def polled_def
  num_def c_rem_def Let_def

text \<open>
  C1, as the claim states it, fails.  In a list of two initialized devices with the
  cursor at 1, device 0 is polled first.  Its poll answers \<open>- 1\<close>, that of device 1
  answers 5; the call stops at device 0 and returns \<open>- 1\<close>, although device 1 is the
  first whose poll yields a completion.  Nor does the claim hold of every list.  With
  the cursor at 2147483647 the increment wraps to \<open>- 2147483648\<close>, whose remainder by 3 is
  \<open>- 2\<close>: the call reads \<^verbatim>\<open>devices[-2]\<close>.  With the cursor at \<open>- 2\<close> the first index is
  \<open>- 1\<close>.  And a device marked initialized that has no completion queue is polled
  through a null pointer.
\<close>

theorem poll_tx_stops_at_error:
  "answer (poll_tx_cq hw_error_first (devices two_devices ! 0) 10) = Inr (- 1) \<and>
   answer (poll_tx_cq hw_error_first (devices two_devices ! 1) 10) = Inr 5 \<and>
   outcome (poll_tx hw_error_first 10 two_devices None) = Inr (- 1, Some 0, [(0, - 1)]) \<and>
   cursor three_devices_at_max = 2147483647 \<and>
   c_rem (sint (last_poll_dev three_devices_at_max + 1)) (num three_devices_at_max) = - 2 \<and>
   poll_tx hw_ok 10 three_devices_at_max None = Inl OutOfBounds \<and>
   cursor two_devices_below = - 2 \<and>
   poll_tx hw_ok 10 two_devices_below None = Inl OutOfBounds \<and>
   poll_tx hw_ok 10 one_without_queue None = Inl NullDeref"
  by (simp add: list_defs numeral_2_eq_2 numeral_3_eq_3)

text \<open>
  C1, amended.  Take a list of \<open>N \<ge> 1\<close> devices in which every device marked
  initialized has its completion queues and whose cursor \<open>c\<close> can be incremented \<open>N\<close>
  times to an index: \<open>- 1 \<le> c\<close> and \<open>c + N \<le> 2147483647\<close>.  Then every \<^verbatim>\<open>poll_tx\<close> and
  \<^verbatim>\<open>poll_rx\<close> call returns, and a call that returns
  \<^item> has visited between 1 and \<open>N\<close> devices, adding one to the cursor before each visit:
    the devices \<open>(c + 1) mod N\<close>, \<open>(c + 2) mod N\<close>, \<dots>, each at most once;
  \<^item> got from each visited device the value its \<^verbatim>\<open>poll_tx_cq\<close> or \<^verbatim>\<open>poll_rx_cq\<close> answers;
  \<^item> got 0 from every device but the last, and returns the value of the last: it stops
    at the first device whose poll is not zero, be it a count or a negative value, or
    after all \<open>N\<close> devices with 0.
  The cursor is kept between calls: when \<open>c + K * N \<le> 2147483647\<close>, any interleaving of
  \<open>K\<close> calls returns, and if all return 0 the devices visited are the \<open>K * N\<close> that follow
  \<open>c\<close> in cyclic order, and the cursor is \<open>c + K * N\<close> afterwards.
\<close>

theorem poll_round_robin:
  assumes "devices dl \<noteq> []" and "- 1 \<le> cursor dl"
    and "cursor dl + int (length (devices dl)) \<le> 2147483647"
    and "list_all device_ok (devices dl)"
  shows "(\<exists>n d' tr dl'. poll_one h call dl d = Inr (n, d', tr, dl') \<and>
            list_all device_ok (devices dl')) \<and>
         (\<forall>n d' tr dl'. poll_one h call dl d = Inr (n, d', tr, dl') \<longrightarrow>
            1 \<le> length tr \<and> length tr \<le> length (devices dl) \<and>
            map fst tr = rotation (cursor dl) (length (devices dl)) (length tr) \<and>
            distinct (map fst tr) \<and>
            cursor dl' = cursor dl + int (length tr) \<and>
            (\<forall>j < length tr. \<exists>dev'.
               device_poll h call (devices dl ! fst (tr ! j)) = Inr (snd (tr ! j), dev')) \<and>
            (\<forall>j < length tr. snd (tr ! j) \<noteq> 0 \<longrightarrow> Suc j = length tr) \<and>
            n = snd (last tr) \<and>
            (n = 0 \<longrightarrow> length tr = length (devices dl))) \<and>
         (cursor dl + int (length calls * length (devices dl)) \<le> 2147483647 \<longrightarrow>
            (\<exists>ns tr dl'. poll_calls h calls dl d = Inr (ns, tr, dl')) \<and>
            (\<forall>ns tr dl'. poll_calls h calls dl d = Inr (ns, tr, dl') \<and> (\<forall>n \<in> set ns. n = 0) \<longrightarrow>
               map fst tr = rotation (cursor dl) (length (devices dl))
                              (length calls * length (devices dl)) \<and>
               cursor dl' = cursor dl + int (length calls * length (devices dl))))"
proof (intro conjI allI impI)
  from poll_devices_total [of device_ok "device_poll h call", OF device_poll_ok assms(4,1,2,3)]
  show "\<exists>n d' tr dl'. poll_one h call dl d = Inr (n, d', tr, dl') \<and>
            list_all device_ok (devices dl')"
    unfolding poll_one_loop by blast
next
  fix n d' tr dl'
  assume "poll_one h call dl d = Inr (n, d', tr, dl')"
  then have run: "poll_devices (device_poll h call) (length (devices dl)) dl 0 d =
      Inr (n, d', tr, dl')"
    by (simp add: poll_one_loop)
  note t = poll_devices_trace [OF run assms(1,2,3)]
  note v = poll_devices_values [OF run assms(1,2,3) order_refl]
  from assms(1) have N: "0 < length (devices dl)" by simp
  from t N have ne: "tr \<noteq> []" by auto
  then show "1 \<le> length tr" by (cases tr) simp_all
  from t show len: "length tr \<le> length (devices dl)" by simp
  from t show rot: "map fst tr = rotation (cursor dl) (length (devices dl)) (length tr)"
    by simp
  show "distinct (map fst tr)"
    unfolding rot using len N by (rule rotation_distinct)
  from t show "cursor dl' = cursor dl + int (length tr)" by simp
  from t ne show "n = snd (last tr)" by simp
  from t show "length tr = length (devices dl)" if "n = 0" using that by simp
  from t have z: "\<forall>x \<in> set (butlast tr). snd x = 0" by blast
  show "Suc j = length tr" if "j < length tr" "snd (tr ! j) \<noteq> 0" for j
    using z that by (rule butlast_zero_nth)
  show "\<exists>dev'. device_poll h call (devices dl ! fst (tr ! j)) = Inr (snd (tr ! j), dev')"
    if "j < length tr" for j
    using v that by blast
next
  assume top: "cursor dl + int (length calls * length (devices dl)) \<le> 2147483647"
  from poll_calls_total [OF assms(4,1,2) top]
  show "\<exists>ns tr dl'. poll_calls h calls dl d = Inr (ns, tr, dl')" by blast
next
  fix ns tr dl'
  assume top: "cursor dl + int (length calls * length (devices dl)) \<le> 2147483647"
  assume a: "poll_calls h calls dl d = Inr (ns, tr, dl') \<and> (\<forall>n \<in> set ns. n = 0)"
  then have run: "poll_calls h calls dl d = Inr (ns, tr, dl')" and z: "\<forall>n \<in> set ns. n = 0"
    by simp_all
  note r = poll_calls_zero [OF run assms(1,2) top z]
  from r show "map fst tr = rotation (cursor dl) (length (devices dl))
                           (length calls * length (devices dl))"
    by simp
  from r show "cursor dl' = cursor dl + int (length calls * length (devices dl))"
    by simp
qed

lemma two_devices_ok:
  "devices two_devices \<noteq> []" "- 1 \<le> cursor two_devices"
  "cursor two_devices + int (length (devices two_devices)) \<le> 2147483647"
  "list_all device_ok (devices two_devices)"
  by (simp_all add: two_devices_def cursor_def device_ok_def dev_ready_def dev_ready1_def)

theorem poll_round_robin_witness:
  "devices two_devices \<noteq> [] \<and> - 1 \<le> cursor two_devices \<and>
   cursor two_devices + int (length (devices two_devices)) \<le> 2147483647 \<and>
   list_all device_ok (devices two_devices) \<and>
   cursor two_devices +
     int (length [PollTx 10, PollRx 10] * length (devices two_devices)) \<le> 2147483647 \<and>
   outcome (poll_one hw_ok (PollRx 10) two_devices None) = Inr (0, Some 1, [(0, 0), (1, 0)]) \<and>
   outcomes (poll_calls hw_ok [PollTx 10, PollRx 10] two_devices None) =
     Inr ([0, 0], [(0, 0), (1, 0), (0, 0), (1, 0)], 5) \<and>
   rotation (cursor two_devices) (length (devices two_devices))
     (length [PollTx 10, PollRx 10] * length (devices two_devices)) = [0, 1, 0, 1]"
proof -
  have top: "cursor two_devices +
      int (length [PollTx 10, PollRx 10] * length (devices two_devices)) \<le> 2147483647"
    by (simp add: two_devices_def cursor_def)
  note th = poll_round_robin [OF two_devices_ok, of hw_ok "PollRx 10" None "[PollTx 10, PollRx 10]"]
  from th top have
    ex: "\<exists>ns tr dl'. poll_calls hw_ok [PollTx 10, PollRx 10] two_devices None = Inr (ns, tr, dl')"
    and rot: "\<And>ns tr dl'.
      poll_calls hw_ok [PollTx 10, PollRx 10] two_devices None = Inr (ns, tr, dl') \<and>
      (\<forall>n \<in> set ns. n = 0) \<Longrightarrow>
      map fst tr = rotation (cursor two_devices) (length (devices two_devices))
        (length [PollTx 10, PollRx 10] * length (devices two_devices))"
    by blast+
  have one: "outcome (poll_one hw_ok (PollRx 10) two_devices None) = Inr (0, Some 1, [(0, 0), (1, 0)])"
    by (simp add: list_defs)
  have ev: "outcomes (poll_calls hw_ok [PollTx 10, PollRx 10] two_devices None) =
      Inr ([0, 0], [(0, 0), (1, 0), (0, 0), (1, 0)], 5)"
    by (simp add: list_defs)
  from ex obtain ns tr dl' where
    run: "poll_calls hw_ok [PollTx 10, PollRx 10] two_devices None = Inr (ns, tr, dl')"
    by blast
  with ev have v: "ns = [0, 0]" "tr = [(0, 0), (1, 0), (0, 0), (1, 0)]"
    by (simp_all add: outcomes_def)
  then have "\<forall>n \<in> set ns. n = 0" by simp
  with rot [of ns tr dl'] run have
    "map fst tr = rotation (cursor two_devices) (length (devices two_devices))
       (length [PollTx 10, PollRx 10] * length (devices two_devices))"
    by blast
  with v have "rotation (cursor two_devices) (length (devices two_devices))
       (length [PollTx 10, PollRx 10] * length (devices two_devices)) = [0, 1, 0, 1]"
    by simp
  with one ev top two_devices_ok show ?thesis by simp
qed




subsection \<open>Blocking wait\<close>

lemma poll_wait_timeouts:
  "(\<And>j. j < m \<Longrightarrow> w (k + j) = (0, False)) \<Longrightarrow>
     poll_wait w k False 0 = poll_wait w (k + m) False 0"
proof (induction m arbitrary: k)
  case 0
  then show ?case by simp
next
  case (Suc m)
  from Suc.prems [of 0] have w0: "w k = (0, False)" by simp
  have "poll_wait w k False 0 = poll_wait w (Suc k) False 0"
    by (subst poll_wait.simps) (simp add: w0)
  also have "\<dots> = poll_wait w (Suc k + m) False 0"
  proof (rule Suc.IH)
    fix j assume "j < m"
    with Suc.prems [of "Suc j"] show "w (Suc k + j) = (0, False)" by simp
  qed
  finally show ?case by simp
qed

lemma poll_wait_positive:
  assumes "\<And>j. j < m \<Longrightarrow> w j = (0, False)" and "w m = (r, dn)" and "0 < r"
  shows "poll_wait w 0 False 0 = Some (Inr (r, Suc m))"
proof -
  have "poll_wait w 0 False 0 = poll_wait w (0 + m) False 0"
    by (rule poll_wait_timeouts) (simp add: assms(1))
  also have "\<dots> = poll_wait w (Suc m) dn r"
    using assms(2,3) by (subst poll_wait.simps) simp
  also have "\<dots> = Some (Inr (r, Suc m))"
    using assms(3) by (subst poll_wait.simps) simp
  finally show ?thesis .
qed

lemma get_cq_events_live:
  assumes "tx_cc d = Live t" and "rx_cc d = Live x"
  shows "get_cq_events h d = Inr (d\<lparr>tx_cc := Live (got_event h t), rx_cc := Live (got_event h x)\<rparr>)"
  using assms by (simp add: get_cq_events_def Let_def)

lemma drain_devices_live:
  "list_all channels_live ds \<Longrightarrow>
     \<exists>ds'. drain_devices h ds = Inr ds' \<and> length ds' = length ds \<and>
       (\<forall>i < length ds. \<exists>t x.
          tx_cc (ds ! i) = Live t \<and> rx_cc (ds ! i) = Live x \<and>
          ds' ! i = (ds ! i)\<lparr>tx_cc := Live (got_event h t), rx_cc := Live (got_event h x)\<rparr>)"
proof (induction ds)
  case Nil
  then show ?case by simp
next
  case (Cons d ds)
  from Cons.prems obtain t x where tx: "tx_cc d = Live t" "rx_cc d = Live x"
    by (cases "tx_cc d"; cases "rx_cc d") (auto simp: channels_live_def)
  let ?d' = "d\<lparr>tx_cc := Live (got_event h t), rx_cc := Live (got_event h x)\<rparr>"
  from Cons.prems have "list_all channels_live ds" by simp
  from Cons.IH [OF this] obtain ds' where
    ds': "drain_devices h ds = Inr ds'" "length ds' = length ds"
    "\<forall>i < length ds. \<exists>t x.
          tx_cc (ds ! i) = Live t \<and> rx_cc (ds ! i) = Live x \<and>
          ds' ! i = (ds ! i)\<lparr>tx_cc := Live (got_event h t), rx_cc := Live (got_event h x)\<rparr>"
    by blast
  have run: "drain_devices h (d # ds) = Inr (?d' # ds')"
    using ds'(1) get_cq_events_live [OF tx, of h] by simp
  have "\<exists>t x. tx_cc ((d # ds) ! i) = Live t \<and> rx_cc ((d # ds) ! i) = Live x \<and>
          (?d' # ds') ! i =
            ((d # ds) ! i)\<lparr>tx_cc := Live (got_event h t), rx_cc := Live (got_event h x)\<rparr>"
    if "i < length (d # ds)" for i
  proof (cases i)
    case 0
    with tx show ?thesis by simp
  next
    case (Suc i')
    with that have "i' < length ds" by simp
    with ds'(3) Suc show ?thesis by simp
  qed
  with run ds'(2) show ?case by simp
qed

text \<open>
  C9.  \<^verbatim>\<open>uninit()\<close> deletes the two completion channels of a device, and the list keeps
  the device.  In the list of \<^verbatim>\<open>mlx5_0\<close> after \<^verbatim>\<open>init()\<close> and \<^verbatim>\<open>uninit()\<close> and of
  \<^verbatim>\<open>mlx5_1\<close>, \<^verbatim>\<open>poll_blocking(done)\<close> with the flag set still returns 0 without a call
  of \<^verbatim>\<open>poll()\<close>.  With the flag unset, when the third \<^verbatim>\<open>poll()\<close> returns 1, it calls
  \<^verbatim>\<open>get_cq_event()\<close> through the deleted transmit channel of the first device: it
  neither drains the channels of \<^verbatim>\<open>mlx5_1\<close> nor returns 1.
\<close>

theorem poll_blocking_after_uninit:
  "uninit dev_ready = Inr dev_gone \<and>
   devices gone_then_ready = [dev_gone, dev_ready1] \<and>
   tx_cc dev_gone = Dangling \<and> rx_cc dev_gone = Dangling \<and>
   poll_blocking hw_ok wait_third True gone_then_ready = Some (Inr (0, 0, gone_then_ready)) \<and>
   wait_third 0 = (0, False) \<and> wait_third 1 = (0, False) \<and> wait_third 2 = (1, False) \<and>
   poll_blocking hw_ok wait_third False gone_then_ready = Some (Inl UseAfterFree)"
proof -
  have w: "wait_third 0 = (0, False)" "wait_third 1 = (0, False)" "wait_third 2 = (1, False)"
    by (simp_all add: wait_third_def)
  have "poll_wait wait_third 0 True 0 = Some (Inr (0, 0))"
    by (subst poll_wait.simps) simp
  then have a: "poll_blocking hw_ok wait_third True gone_then_ready =
      Some (Inr (0, 0, gone_then_ready))"
    by (simp add: poll_blocking_def)
  have "poll_wait wait_third 0 False 0 = Some (Inr (1, Suc 2))"
    by (rule poll_wait_positive [where dn = False]) (simp_all add: wait_third_def)
  moreover have "drain_devices hw_ok (devices gone_then_ready) = Inl UseAfterFree"
    by (simp add: gone_then_ready_def two_devices_def get_cq_events_def dev_gone_def)
  ultimately have b: "poll_blocking hw_ok wait_third False gone_then_ready =
      Some (Inl UseAfterFree)"
    by (simp add: poll_blocking_def)
  have c: "devices gone_then_ready = [dev_gone, dev_ready1]"
    "tx_cc dev_gone = Dangling" "rx_cc dev_gone = Dangling"
    by (simp_all add: gone_then_ready_def two_devices_def dev_gone_def)
  from a b c w uninit_example show ?thesis by simp
qed

text \<open>
  What \<^verbatim>\<open>poll_blocking\<close> does while every device has its two channels.
  \<^verbatim>\<open>poll_blocking(done)\<close> with the flag already set returns 0, the list unchanged,
  after no call of \<^verbatim>\<open>poll()\<close>.  When \<^verbatim>\<open>poll()\<close>, after any number of timeouts with the
  flag still unset, returns a positive \<open>r\<close> and every device has its two channels, then
  \<^verbatim>\<open>poll_blocking\<close> returns \<open>r\<close>, and before it does it has called \<^verbatim>\<open>get_cq_event()\<close>
  exactly once on the transmit channel and once on the receive channel of every
  device, whatever each call answered.
\<close>

theorem poll_blocking_done_and_drain:
  "poll_blocking h w True dl = Some (Inr (0, 0, dl)) \<and>
   (\<forall>m r dn.
      (\<forall>j < m. w j = (0, False)) \<and> w m = (r, dn) \<and> 0 < r \<and>
      list_all channels_live (devices dl) \<longrightarrow>
      (\<exists>ds. poll_blocking h w False dl = Some (Inr (r, Suc m, dl\<lparr>devices := ds\<rparr>)) \<and>
            length ds = length (devices dl) \<and>
            (\<forall>i < length (devices dl). \<exists>t x.
               tx_cc (devices dl ! i) = Live t \<and> rx_cc (devices dl ! i) = Live x \<and>
               ds ! i = (devices dl ! i)\<lparr>tx_cc := Live (t\<lparr>cc_events := cc_events t @ [get_cq_event h t]\<rparr>),
                                        rx_cc := Live (x\<lparr>cc_events := cc_events x @ [get_cq_event h x]\<rparr>)\<rparr>)))"
proof (intro conjI allI impI)
  have "poll_wait w 0 True 0 = Some (Inr (0, 0))"
    by (subst poll_wait.simps) simp
  then show "poll_blocking h w True dl = Some (Inr (0, 0, dl))"
    by (simp add: poll_blocking_def)
next
  fix m r dn
  assume a: "(\<forall>j < m. w j = (0, False)) \<and> w m = (r, dn) \<and> 0 < r \<and>
      list_all channels_live (devices dl)"
  then have wait: "poll_wait w 0 False 0 = Some (Inr (r, Suc m))"
    by (intro poll_wait_positive [where dn = dn]) simp_all
  from a have "list_all channels_live (devices dl)" by simp
  from drain_devices_live [OF this, of h] obtain ds where
    ds: "drain_devices h (devices dl) = Inr ds" "length ds = length (devices dl)"
    "\<forall>i < length (devices dl). \<exists>t x.
          tx_cc (devices dl ! i) = Live t \<and> rx_cc (devices dl ! i) = Live x \<and>
          ds ! i = (devices dl ! i)\<lparr>tx_cc := Live (got_event h t), rx_cc := Live (got_event h x)\<rparr>"
    by blast
  from a wait ds(1) have "poll_blocking h w False dl = Some (Inr (r, Suc m, dl\<lparr>devices := ds\<rparr>))"
    by (simp add: poll_blocking_def)
  with ds(2,3) show "\<exists>ds. poll_blocking h w False dl = Some (Inr (r, Suc m, dl\<lparr>devices := ds\<rparr>)) \<and>
            length ds = length (devices dl) \<and>
            (\<forall>i < length (devices dl). \<exists>t x.
               tx_cc (devices dl ! i) = Live t \<and> rx_cc (devices dl ! i) = Live x \<and>
               ds ! i = (devices dl ! i)\<lparr>tx_cc := Live (t\<lparr>cc_events := cc_events t @ [get_cq_event h t]\<rparr>),
                                        rx_cc := Live (x\<lparr>cc_events := cc_events x @ [get_cq_event h x]\<rparr>)\<rparr>)"
    unfolding got_event_def by blast
qed

theorem poll_blocking_done_and_drain_witness:
  "poll_blocking hw_ok wait_third True two_devices = Some (Inr (0, 0, two_devices)) \<and>
   list_all channels_live (devices two_devices) \<and>
   wait_third 0 = (0, False) \<and> wait_third 1 = (0, False) \<and> wait_third 2 = (1, False) \<and>
   poll_blocking hw_ok wait_third False two_devices =
     Some (Inr (1, 3, two_devices\<lparr>devices :=
       [dev_ready\<lparr>tx_cc := Live \<lparr>cc_fd = 10, cc_events = [False], cc_acks = 0\<rparr>,
                  rx_cc := Live \<lparr>cc_fd = 11, cc_events = [False], cc_acks = 0\<rparr>\<rparr>,
        dev_ready1\<lparr>tx_cc := Live \<lparr>cc_fd = 12, cc_events = [False], cc_acks = 0\<rparr>,
                   rx_cc := Live \<lparr>cc_fd = 13, cc_events = [False], cc_acks = 0\<rparr>\<rparr>]\<rparr>))"
proof -
  note th = poll_blocking_done_and_drain [of hw_ok wait_third two_devices]
  have live: "list_all channels_live (devices two_devices)"
    by (simp add: two_devices_def channels_live_def dev_ready_def dev_ready1_def)
  have w: "\<forall>j < 2. wait_third j = (0, False)" "wait_third 2 = (1, False)"
    by (simp_all add: wait_third_def)
  from th live w obtain ds where
    run: "poll_blocking hw_ok wait_third False two_devices =
            Some (Inr (1, Suc 2, two_devices\<lparr>devices := ds\<rparr>))" and
    len: "length ds = length (devices two_devices)" and
    each: "\<forall>i < length (devices two_devices). \<exists>t x.
               tx_cc (devices two_devices ! i) = Live t \<and> rx_cc (devices two_devices ! i) = Live x \<and>
               ds ! i = (devices two_devices ! i)
                 \<lparr>tx_cc := Live (t\<lparr>cc_events := cc_events t @ [get_cq_event hw_ok t]\<rparr>),
                  rx_cc := Live (x\<lparr>cc_events := cc_events x @ [get_cq_event hw_ok x]\<rparr>)\<rparr>"
    by (metis zero_less_one)
  from len obtain a b where ds: "ds = [a, b]"
    by (cases ds; cases "tl ds") (auto simp: two_devices_def)
  from each [rule_format, of 0] have
    "a = dev_ready\<lparr>tx_cc := Live \<lparr>cc_fd = 10, cc_events = [False], cc_acks = 0\<rparr>,
                  rx_cc := Live \<lparr>cc_fd = 11, cc_events = [False], cc_acks = 0\<rparr>\<rparr>"
    by (auto simp: ds two_devices_def dev_ready_def hw_ok_def)
  moreover from each [rule_format, of 1] have
    "b = dev_ready1\<lparr>tx_cc := Live \<lparr>cc_fd = 12, cc_events = [False], cc_acks = 0\<rparr>,
                   rx_cc := Live \<lparr>cc_fd = 13, cc_events = [False], cc_acks = 0\<rparr>\<rparr>"
    by (auto simp: ds two_devices_def dev_ready_def dev_ready1_def hw_ok_def)
  ultimately show ?thesis
    using th run live w by (simp add: ds wait_third_def)
qed


subsection \<open>GID selection in the Port constructor\<close>

lemma gid_search_end:
  "\<not> idx < len \<Longrightarrow> gid_search p c malformed len idx g = Inr (idx, g)"
  by (subst gid_search.simps) simp

lemma gid_search_query:
  assumes "idx < len" and "fst (ibv_query_gid p idx) = 0" and "fst (ibv_exp_query_gid_attr p idx) = 0"
  shows "gid_search p c malformed len idx g =
           (if malformed \<or> gid_matches p c idx then Inr (idx, snd (ibv_query_gid p idx))
            else gid_search p c malformed len (idx + 1) (snd (ibv_query_gid p idx)))"
  using assms
  by (subst gid_search.simps) (auto simp: gid_matches_def split: prod.splits)

lemma gid_search_fails:
  assumes "idx < len" and "fst (ibv_query_gid p idx) \<noteq> 0 \<or> fst (ibv_exp_query_gid_attr p idx) \<noteq> 0"
  shows "gid_search p c malformed len idx g = Inl CephAbort"
  using assms
  by (subst gid_search.simps) (auto split: prod.splits)

lemma gid_search_first_match:
  assumes "k < len"
    and "\<And>i. idx \<le> i \<Longrightarrow> i \<le> k \<Longrightarrow>
           fst (ibv_query_gid p i) = 0 \<and> fst (ibv_exp_query_gid_attr p i) = 0"
    and "\<And>i. idx \<le> i \<Longrightarrow> i < k \<Longrightarrow> \<not> gid_matches p c i"
    and "gid_matches p c k"
  shows "n = nat (k - idx) \<Longrightarrow> idx \<le> k \<Longrightarrow>
           gid_search p c False len idx g = Inr (k, snd (ibv_query_gid p k))"
  using assms(2,3)
proof (induction n arbitrary: idx g)
  case 0
  then have "idx = k" by simp
  with assms(1,4) 0(3) [of k] show ?case
    by (simp add: gid_search_query)
next
  case (Suc n)
  then have lt: "idx < k" by simp
  with assms(1) have "idx < len" by simp
  moreover from Suc.prems(3) [of idx] lt have
    "fst (ibv_query_gid p idx) = 0" "fst (ibv_exp_query_gid_attr p idx) = 0"
    by simp_all
  moreover from Suc.prems(4) [of idx] lt have "\<not> gid_matches p c idx" by simp
  ultimately have "gid_search p c False len idx g =
      gid_search p c False len (idx + 1) (snd (ibv_query_gid p idx))"
    by (simp add: gid_search_query)
  also have "\<dots> = Inr (k, snd (ibv_query_gid p k))"
  proof (rule Suc.IH)
    show "n = nat (k - (idx + 1))" using Suc.prems(1) by simp
    show "idx + 1 \<le> k" using lt by simp
    show "fst (ibv_query_gid p i) = 0 \<and> fst (ibv_exp_query_gid_attr p i) = 0"
      if "idx + 1 \<le> i" "i \<le> k" for i
      using Suc.prems(3) [of i] that by simp
    show "\<not> gid_matches p c i" if "idx + 1 \<le> i" "i < k" for i
      using Suc.prems(4) [of i] that by simp
  qed
  finally show ?case .
qed

lemma gid_search_no_match:
  assumes "\<And>i. idx0 \<le> i \<Longrightarrow> i < len \<Longrightarrow> \<not> gid_matches p c i"
  shows "n = nat (len - idx) \<Longrightarrow> idx0 \<le> idx \<Longrightarrow> idx \<le> len \<Longrightarrow>
           gid_search p c False len idx g = Inl CephAbort \<or>
           (\<exists>g'. gid_search p c False len idx g = Inr (len, g'))"
proof (induction n arbitrary: idx g)
  case 0
  then have "idx = len" by simp
  then show ?case by (simp add: gid_search_end)
next
  case (Suc n)
  then have lt: "idx < len" by simp
  show ?case
  proof (cases "fst (ibv_query_gid p idx) = 0 \<and> fst (ibv_exp_query_gid_attr p idx) = 0")
    case False
    with lt have "gid_search p c False len idx g = Inl CephAbort"
      by (intro gid_search_fails) auto
    then show ?thesis by simp
  next
    case True
    moreover from assms [of idx] Suc.prems(2) lt have "\<not> gid_matches p c idx" by simp
    ultimately have "gid_search p c False len idx g =
        gid_search p c False len (idx + 1) (snd (ibv_query_gid p idx))"
      using lt by (simp add: gid_search_query)
    moreover have "gid_search p c False len (idx + 1) (snd (ibv_query_gid p idx)) = Inl CephAbort \<or>
        (\<exists>g'. gid_search p c False len (idx + 1) (snd (ibv_query_gid p idx)) = Inr (len, g'))"
      using Suc.prems lt by (intro Suc.IH) simp_all
    ultimately show ?thesis by simp
  qed
qed

text \<open>
  C4, as the claim states it, fails.  With a configured string that \<^verbatim>\<open>sscanf\<close> reads
  nothing from, the constructor aborts when the GID table is empty and when the query
  of entry 0 fails; it selects no index.  Nor does the claim hold of every
  construction.  Built without \<^verbatim>\<open>HAVE_IBV_EXP\<close> the constructor scans nothing: asked
  for entry 3 it takes the GID of entry 0 and leaves \<open>gid_idx\<close> alone, and asked for a
  GID that is not in the table it does not abort.  When the table length is negative
  the loop is not entered and the check after it passes: asked for a GID that is not in
  the table, the constructor returns with index 0 and the \<open>gid\<close> it started with.  And
  when the port query fails, or the GID query of entry 1, the constructor aborts,
  although entry 3 is the one asked for.
\<close>

theorem port_malformed_gid_aborts:
  "fst (sscanf_gid conf_bad) = 0 \<and>
   Port_ctor True port_hw_empty conf_bad 1 port0 = Inl CephAbort \<and>
   Port_ctor True port_hw_fails conf_bad 1 port0 = Inl CephAbort \<and>
   fst (sscanf_gid conf3) = 16 \<and> gid_matches port_hw0 conf3 3 \<and>
   Port_ctor False port_hw0 conf3 1 port0 =
     Inr \<lparr>port_num = 1, port_lid = 7, gid = gid_entry 0, gid_idx = 0\<rparr> \<and>
   fst (sscanf_gid conf0) = 16 \<and> (\<forall>i. \<not> gid_matches port_hw0 conf0 i) \<and>
   Port_ctor False port_hw0 conf0 1 port0 =
     Inr \<lparr>port_num = 1, port_lid = 7, gid = gid_entry 0, gid_idx = 0\<rparr> \<and>
   gid_tbl_len (snd (ibv_query_port port_hw_negative)) = - 1 \<and>
   (\<forall>i. \<not> gid_matches port_hw_negative conf0 i) \<and>
   Port_ctor True port_hw_negative conf0 1 port0 =
     Inr \<lparr>port_num = 1, port_lid = 7, gid = [], gid_idx = 0\<rparr> \<and>
   fst (ibv_query_port port_hw_no_port) = - 1 \<and> gid_matches port_hw_no_port conf3 3 \<and>
   Port_ctor True port_hw_no_port conf3 1 port0 = Inl CephAbort \<and>
   fst (ibv_query_gid port_hw_fails_at1 1) = - 1 \<and> gid_matches port_hw_fails_at1 conf3 3 \<and>
   Port_ctor True port_hw_fails_at1 conf3 1 port0 = Inl CephAbort"
proof -
  have m: "fst (ibv_query_gid port_hw_fails_at1 1) = - 1" "gid_matches port_hw_fails_at1 conf3 3"
    "\<not> gid_matches port_hw_fails_at1 conf3 0"
    by (simp_all add: gid_matches_def port_hw_fails_at1_def port_hw0_def conf3_def conf0_def
        memcmp16_eq_def gid_entry_def)
  have "gid_search port_hw_fails_at1 conf3 False 5 0 [] =
      gid_search port_hw_fails_at1 conf3 False 5 (0 + 1) (snd (ibv_query_gid port_hw_fails_at1 0))"
    using m(3) by (subst gid_search_query) (simp_all add: port_hw_fails_at1_def port_hw0_def)
  also have "\<dots> = Inl CephAbort"
    by (rule gid_search_fails) (simp_all add: port_hw_fails_at1_def)
  finally have n: "Port_ctor True port_hw_fails_at1 conf3 1 port0 = Inl CephAbort"
    by (simp add: Port_ctor_def port_hw_fails_at1_def port_hw0_def conf3_def port0_def)
  have a: "fst (sscanf_gid conf_bad) = 0" by (simp add: conf_bad_def)
  have b: "Port_ctor True port_hw_empty conf_bad 1 port0 = Inl CephAbort"
    by (simp add: Port_ctor_def port_hw_empty_def port_hw0_def gid_search_end)
  have "gid_search port_hw_fails conf_bad True 5 0 [] = Inl CephAbort"
    by (rule gid_search_fails) (simp_all add: port_hw_fails_def)
  then have c: "Port_ctor True port_hw_fails conf_bad 1 port0 = Inl CephAbort"
    by (simp add: Port_ctor_def port_hw_fails_def port_hw0_def conf_bad_def port0_def)
  have d: "fst (sscanf_gid conf3) = 16" "fst (sscanf_gid conf0) = 16"
    by (simp_all add: conf3_def conf0_def)
  have e: "gid_matches port_hw0 conf3 3" "gid_matches port_hw_no_port conf3 3"
    by (simp_all add: gid_matches_def port_hw_no_port_def port_hw0_def conf3_def conf0_def
        memcmp16_eq_def gid_entry_def)
  have f: "\<not> gid_matches port_hw0 conf0 i" "\<not> gid_matches port_hw_negative conf0 i" for i
    by (simp_all add: gid_matches_def port_hw_negative_def port_hw0_def conf0_def
        memcmp16_eq_def gid_entry_def)
  have g: "Port_ctor False port_hw0 conf3 1 port0 =
      Inr \<lparr>port_num = 1, port_lid = 7, gid = gid_entry 0, gid_idx = 0\<rparr>"
    "Port_ctor False port_hw0 conf0 1 port0 =
      Inr \<lparr>port_num = 1, port_lid = 7, gid = gid_entry 0, gid_idx = 0\<rparr>"
    by (simp_all add: Port_ctor_def port_hw0_def port0_def)
  have h: "gid_tbl_len (snd (ibv_query_port port_hw_negative)) = - 1"
    "fst (ibv_query_port port_hw_no_port) = - 1"
    by (simp_all add: port_hw_negative_def port_hw_no_port_def)
  have "gid_search port_hw_negative conf0 False (- 1) 0 [] = Inr (0, [])"
    by (rule gid_search_end) simp
  then have k: "Port_ctor True port_hw_negative conf0 1 port0 =
      Inr \<lparr>port_num = 1, port_lid = 7, gid = [], gid_idx = 0\<rparr>"
    by (simp add: Port_ctor_def port_hw_negative_def port_hw0_def conf0_def port0_def)
  have l: "Port_ctor True port_hw_no_port conf3 1 port0 = Inl CephAbort"
    by (simp add: Port_ctor_def port_hw_no_port_def)
  from a b c d e f g h k l m(1,2) n show ?thesis by simp
qed

text \<open>
  C4, amended.  In a build with \<^verbatim>\<open>HAVE_IBV_EXP\<close>, when the port query succeeds and the
  table length is not negative:
  \<^item> if the configured string yields other than 16 bytes, the table is not empty and the
    two queries of entry 0 succeed, index 0 is selected, whatever the entries hold;
  \<^item> if it yields 16 bytes, the queries of entries 0 to \<open>k\<close> succeed and \<open>k\<close> is the
    first entry of the table whose type is the configured protocol version and whose
    16 bytes equal the parsed ones, index \<open>k\<close> is selected;
  \<^item> if it yields 16 bytes and no entry of the table matches, the constructor aborts;
  \<^item> if it yields other than 16 bytes and the table is empty, or one of the two queries
    of entry 0 fails, the constructor aborts.
\<close>

theorem port_gid_selection:
  assumes "ibv_query_port p = (r, attr)" and "r \<noteq> - 1" and "0 \<le> gid_tbl_len attr"
  shows "(fst (sscanf_gid c) \<noteq> 16 \<and> 0 < gid_tbl_len attr \<and>
          fst (ibv_query_gid p 0) = 0 \<and> fst (ibv_exp_query_gid_attr p 0) = 0 \<longrightarrow>
            Port_ctor True p c ipn this0 =
              Inr \<lparr>port_num = ipn, port_lid = lid attr, gid = snd (ibv_query_gid p 0), gid_idx = 0\<rparr>) \<and>
         (\<forall>k. fst (sscanf_gid c) = 16 \<and> 0 \<le> k \<and> k < gid_tbl_len attr \<and>
              (\<forall>i. 0 \<le> i \<and> i \<le> k \<longrightarrow>
                 fst (ibv_query_gid p i) = 0 \<and> fst (ibv_exp_query_gid_attr p i) = 0) \<and>
              (\<forall>i. 0 \<le> i \<and> i < k \<longrightarrow> \<not> gid_matches p c i) \<and> gid_matches p c k \<longrightarrow>
            Port_ctor True p c ipn this0 =
              Inr \<lparr>port_num = ipn, port_lid = lid attr, gid = snd (ibv_query_gid p k), gid_idx = k\<rparr>) \<and>
         (fst (sscanf_gid c) = 16 \<and>
          (\<forall>i. 0 \<le> i \<and> i < gid_tbl_len attr \<longrightarrow> \<not> gid_matches p c i) \<longrightarrow>
            Port_ctor True p c ipn this0 = Inl CephAbort) \<and>
         (fst (sscanf_gid c) \<noteq> 16 \<and>
          (gid_tbl_len attr = 0 \<or>
           fst (ibv_query_gid p 0) \<noteq> 0 \<or> fst (ibv_exp_query_gid_attr p 0) \<noteq> 0) \<longrightarrow>
            Port_ctor True p c ipn this0 = Inl CephAbort)"
proof (intro conjI allI impI)
  assume a: "fst (sscanf_gid c) \<noteq> 16 \<and> 0 < gid_tbl_len attr \<and>
          fst (ibv_query_gid p 0) = 0 \<and> fst (ibv_exp_query_gid_attr p 0) = 0"
  then have "gid_search p c True (gid_tbl_len attr) 0 (gid this0) =
      Inr (0, snd (ibv_query_gid p 0))"
    by (simp add: gid_search_query)
  with a assms show "Port_ctor True p c ipn this0 =
      Inr \<lparr>port_num = ipn, port_lid = lid attr, gid = snd (ibv_query_gid p 0), gid_idx = 0\<rparr>"
    by (simp add: Port_ctor_def)
next
  fix k
  assume a: "fst (sscanf_gid c) = 16 \<and> 0 \<le> k \<and> k < gid_tbl_len attr \<and>
              (\<forall>i. 0 \<le> i \<and> i \<le> k \<longrightarrow>
                 fst (ibv_query_gid p i) = 0 \<and> fst (ibv_exp_query_gid_attr p i) = 0) \<and>
              (\<forall>i. 0 \<le> i \<and> i < k \<longrightarrow> \<not> gid_matches p c i) \<and> gid_matches p c k"
  have "gid_search p c False (gid_tbl_len attr) 0 (gid this0) = Inr (k, snd (ibv_query_gid p k))"
    using a by (intro gid_search_first_match [where n = "nat (k - 0)"]) simp_all
  with a assms show "Port_ctor True p c ipn this0 =
      Inr \<lparr>port_num = ipn, port_lid = lid attr, gid = snd (ibv_query_gid p k), gid_idx = k\<rparr>"
    by (simp add: Port_ctor_def)
next
  assume a: "fst (sscanf_gid c) = 16 \<and>
          (\<forall>i. 0 \<le> i \<and> i < gid_tbl_len attr \<longrightarrow> \<not> gid_matches p c i)"
  have "gid_search p c False (gid_tbl_len attr) 0 (gid this0) = Inl CephAbort \<or>
     (\<exists>g'. gid_search p c False (gid_tbl_len attr) 0 (gid this0) = Inr (gid_tbl_len attr, g'))"
    using a assms(3)
    by (intro gid_search_no_match [where ?idx0.0 = 0 and n = "nat (gid_tbl_len attr - 0)"]) simp_all
  with a assms show "Port_ctor True p c ipn this0 = Inl CephAbort"
    by (auto simp: Port_ctor_def)
next
  assume a: "fst (sscanf_gid c) \<noteq> 16 \<and>
          (gid_tbl_len attr = 0 \<or>
           fst (ibv_query_gid p 0) \<noteq> 0 \<or> fst (ibv_exp_query_gid_attr p 0) \<noteq> 0)"
  show "Port_ctor True p c ipn this0 = Inl CephAbort"
  proof (cases "gid_tbl_len attr = 0")
    case True
    then have "gid_search p c True (gid_tbl_len attr) 0 (gid this0) = Inr (0, gid this0)"
      by (simp add: gid_search_end)
    with True a assms show ?thesis by (simp add: Port_ctor_def)
  next
    case False
    with assms(3) have pos: "0 < gid_tbl_len attr" by simp
    from a False have
      "fst (ibv_query_gid p 0) \<noteq> 0 \<or> fst (ibv_exp_query_gid_attr p 0) \<noteq> 0"
      by simp
    with pos have "gid_search p c True (gid_tbl_len attr) 0 (gid this0) = Inl CephAbort"
      by (rule gid_search_fails)
    with a assms show ?thesis by (simp add: Port_ctor_def)
  qed
qed

theorem port_gid_selection_witness:
  "Port_ctor True port_hw0 conf_bad 1 port0 =
     Inr \<lparr>port_num = 1, port_lid = 7, gid = gid_entry 0, gid_idx = 0\<rparr> \<and>
   Port_ctor True port_hw0 conf3 1 port0 =
     Inr \<lparr>port_num = 1, port_lid = 7, gid = gid_entry 3, gid_idx = 3\<rparr> \<and>
   Port_ctor True port_hw0 conf0 1 port0 = Inl CephAbort \<and>
   fst (sscanf_gid conf_bad) \<noteq> 16 \<and> fst (ibv_query_gid port_hw_fails 0) \<noteq> 0 \<and>
   Port_ctor True port_hw_fails conf_bad 2 port0 = Inl CephAbort"
proof -
  have q: "ibv_query_port port_hw0 = (0, \<lparr>lid = 7, gid_tbl_len = 5\<rparr>)" "(0::int) \<noteq> - 1"
    "0 \<le> gid_tbl_len \<lparr>lid = 7, gid_tbl_len = 5\<rparr>"
    by (simp_all add: port_hw0_def)
  have qf: "ibv_query_port port_hw_fails = (0, \<lparr>lid = 7, gid_tbl_len = 5\<rparr>)"
    by (simp add: port_hw_fails_def port_hw0_def)
  have neq: "gid_entry i = gid_entry 3 \<longleftrightarrow> (word_of_int i :: 8 word) = 3" for i
    by (simp add: gid_entry_def)
  have m: "gid_matches port_hw0 conf3 i \<longleftrightarrow> 3 \<le> i \<and> (word_of_int i :: 8 word) = 3" for i
    by (auto simp: gid_matches_def port_hw0_def conf3_def conf0_def memcmp16_eq_def gid_entry_def)
  have w3: "(word_of_int i :: 8 word) \<noteq> 3" if "0 \<le> i" "i < 3" for i
  proof -
    from that have "i = 0 \<or> i = 1 \<or> i = 2" by auto
    then show ?thesis by auto
  qed
  have none: "\<not> gid_matches port_hw0 conf0 i" for i
    by (simp add: gid_matches_def port_hw0_def conf0_def memcmp16_eq_def gid_entry_def)
  have bad: "fst (sscanf_gid conf_bad) \<noteq> 16" by (simp add: conf_bad_def)
  have fails: "fst (ibv_query_gid port_hw_fails 0) \<noteq> 0" by (simp add: port_hw_fails_def)
  note th_bad = port_gid_selection [OF q, of conf_bad 1 port0, THEN conjunct1]
  note th_3 = port_gid_selection [OF q, of conf3 1 port0, THEN conjunct2, THEN conjunct1,
      rule_format, of 3]
  note th_none = port_gid_selection [OF q, of conf0 1 port0, THEN conjunct2, THEN conjunct2,
      THEN conjunct1]
  note th_abort = port_gid_selection [OF qf q(2,3), of conf_bad 2 port0, THEN conjunct2,
      THEN conjunct2, THEN conjunct2]
  have a: "Port_ctor True port_hw0 conf_bad 1 port0 =
     Inr \<lparr>port_num = 1, port_lid = 7, gid = gid_entry 0, gid_idx = 0\<rparr>"
    using th_bad by (simp add: conf_bad_def port_hw0_def)
  have b: "Port_ctor True port_hw0 conf3 1 port0 =
     Inr \<lparr>port_num = 1, port_lid = 7, gid = gid_entry 3, gid_idx = 3\<rparr>"
    using th_3 by (simp add: m) (simp add: conf3_def port_hw0_def)
  have c: "Port_ctor True port_hw0 conf0 1 port0 = Inl CephAbort"
    using th_none none by (simp add: conf0_def)
  have d: "Port_ctor True port_hw_fails conf_bad 2 port0 = Inl CephAbort"
    using th_abort bad fails by simp
  from a b c d bad fails show ?thesis by simp
qed

subsection \<open>The resource set across init and uninit\<close>

text \<open>
  When \<^verbatim>\<open>init()\<close> returns on a device that was not initialized and whose two channels
  exist (as the constructor leaves them), the protection domain, the memory manager,
  the shared receive queue and both pairs of completion queue and channel exist and
  the device is marked initialized.  The receive queue is known to exist because at
  least one chunk was posted through it: the memory manager is taken to return the
  number of chunks it hands out.
\<close>

theorem init_establishes_resources:
  assumes "init h c d = Inr d'" and "\<not> initialized d"
    and "is_live (tx_cc d)" and "is_live (rx_cc d)"
    and "\<And>m b. fst (get_channel_buffers h m b) = int (length (snd (get_channel_buffers h m b)))"
  shows "initialized d' \<and> is_live (pd d') \<and> is_live (memory_manager d') \<and> is_live (srq d') \<and>
         is_live (tx_cq d') \<and> is_live (tx_cc d') \<and> is_live (rx_cq d') \<and> is_live (rx_cc d') \<and>
         device_ok d'"
proof -
  from init_fresh_shape [OF assms(1,2)] obtain m s t r where
    "d' = d\<lparr>device_attr := snd (ibv_query_device h),
            pd := Live \<lparr>pd_device = dev_name d\<rparr>,
            max_recv_wr := std_min (max_srq_wr (snd (ibv_query_device h)))
                      (int_cast (ms_async_rdma_receive_buffers c)),
            max_send_wr := std_min (max_qp_wr (snd (ibv_query_device h)))
                      (int_cast (ms_async_rdma_send_buffers c)),
            memory_manager := Live m, srq := s,
            tx_cq := Live t, rx_cq := Live r, initialized := True\<rparr>"
    by blast
  then have "initialized d'" "is_live (pd d')" "is_live (memory_manager d')"
    "is_live (tx_cq d')" "is_live (rx_cq d')" "tx_cc d' = tx_cc d" "rx_cc d' = rx_cc d"
    by simp_all
  moreover have "is_live (srq d')" using assms(1,2,5) by (rule init_fresh_srq_live)
  ultimately show ?thesis using assms(3,4) by (simp add: device_ok_def)
qed

theorem init_establishes_resources_witness:
  "init hw_ok conf0 dev_fresh = Inr dev_ready \<and> \<not> initialized dev_fresh \<and>
   is_live (tx_cc dev_fresh) \<and> is_live (rx_cc dev_fresh) \<and>
   initialized dev_ready \<and> is_live (pd dev_ready) \<and> is_live (memory_manager dev_ready) \<and>
   is_live (srq dev_ready) \<and> is_live (tx_cq dev_ready) \<and> is_live (tx_cc dev_ready) \<and>
   is_live (rx_cq dev_ready) \<and> is_live (rx_cc dev_ready)"
proof -
  have n: "\<not> initialized dev_fresh" "is_live (tx_cc dev_fresh)" "is_live (rx_cc dev_fresh)"
    by (simp_all add: dev_fresh_def)
  have g: "fst (get_channel_buffers hw_ok m b) = int (length (snd (get_channel_buffers hw_ok m b)))"
    for m b
    by (simp add: hw_ok_def)
  from init_establishes_resources [OF init_example n g] n init_example
  show ?thesis by simp
qed

text \<open>
  When \<^verbatim>\<open>uninit()\<close> returns on an initialized device, the flag is false and none of the
  seven pointers is to a live object: the two channels, which were used, are deleted,
  and so is every other resource that existed.
\<close>

theorem uninit_releases_resources:
  assumes "uninit d = Inr d'" and "initialized d"
  shows "\<not> initialized d' \<and> released (pd d') \<and> released (memory_manager d') \<and>
         released (srq d') \<and> released (tx_cq d') \<and> released (rx_cq d') \<and>
         tx_cc d' = Dangling \<and> rx_cc d' = Dangling \<and> device_ok d'"
proof -
  from uninit_initialized_shape [OF assms] obtain p1 p2 p5 p6 p7 where
    d': "d' = d\<lparr>initialized := False, rx_cq := p1, tx_cq := p2, rx_cc := Dangling,
                  tx_cc := Dangling, srq := p5, memory_manager := p6, pd := p7\<rparr>" and
    del: "delete (rx_cq d) = Inr p1" "delete (tx_cq d) = Inr p2" "delete (srq d) = Inr p5"
         "delete (memory_manager d) = Inr p6" "delete (pd d) = Inr p7"
    by blast
  from del have "released p1" "released p2" "released p5" "released p6" "released p7"
    by (simp_all add: delete_released)
  with d' show ?thesis by (simp add: device_ok_def)
qed

theorem uninit_releases_resources_witness:
  "uninit dev_ready = Inr dev_gone \<and> initialized dev_ready \<and> \<not> initialized dev_gone \<and>
   pd dev_gone = Dangling \<and> memory_manager dev_gone = Dangling \<and> srq dev_gone = Dangling \<and>
   tx_cq dev_gone = Dangling \<and> rx_cq dev_gone = Dangling \<and>
   tx_cc dev_gone = Dangling \<and> rx_cc dev_gone = Dangling"
proof -
  have i: "initialized dev_ready" by (simp add: dev_ready_def)
  from uninit_releases_resources [OF uninit_example i] i uninit_example
  show ?thesis by (simp add: dev_gone_def)
qed


end
